theory Spec2Isabelle
  imports Complex_Main "HOL-Library.Word" "HOL-Library.Char_ord"
begin

section \<open>The single-pass compiler of compiler.c\<close>

text \<open>
  The development follows src/compiler.c from top to bottom: tokens and the parser state,
  the character cursor and the lexer, the newline filter, the emitter, the grammar
  functions of the Pratt parser, and the entry point \<open>compile\<close>.

  C undefined behaviour is written out as an error value: reading the source buffer
  behind its zero terminator, writing behind the fixed name buffer, writing behind the
  buffers of a function object, calling through a NULL entry of the rule table.
\<close>

subsection \<open>Errors and sequencing\<close>

datatype error =
    OutOfBounds       \<comment> \<open>source[i] read with i behind the zero terminator\<close>
  | NameOverflow      \<comment> \<open>write behind char name[MAX_NAME]\<close>
  | CodeOverflow      \<comment> \<open>write behind the bytecode buffer of a function object\<close>
  | ConstantOverflow  \<comment> \<open>write behind the constant buffer of a function object\<close>
  | NullCall          \<comment> \<open>NULL rule-table entry dereferenced\<close>
  | OutOfFuel         \<comment> \<open>the recursion bound of the model was reached\<close>

definition ebind :: "error + 'a \<Rightarrow> ('a \<Rightarrow> error + 'b) \<Rightarrow> error + 'b" where
  "ebind m f = (case m of Inl e \<Rightarrow> Inl e | Inr x \<Rightarrow> f x)"

subsection \<open>Tokens\<close>

datatype TokenType =
    TOKEN_LEFT_PAREN | TOKEN_RIGHT_PAREN | TOKEN_LEFT_BRACKET | TOKEN_RIGHT_BRACKET
  | TOKEN_LEFT_BRACE | TOKEN_RIGHT_BRACE | TOKEN_COLON | TOKEN_DOT | TOKEN_COMMA
  | TOKEN_STAR | TOKEN_SLASH | TOKEN_PERCENT | TOKEN_PLUS | TOKEN_MINUS | TOKEN_PIPE
  | TOKEN_AMP | TOKEN_BANG | TOKEN_EQ | TOKEN_LT | TOKEN_GT | TOKEN_LTEQ | TOKEN_GTEQ
  | TOKEN_EQEQ | TOKEN_BANGEQ
  | TOKEN_CLASS | TOKEN_ELSE | TOKEN_FALSE | TOKEN_FN | TOKEN_IF | TOKEN_IS | TOKEN_NULL
  | TOKEN_STATIC | TOKEN_THIS | TOKEN_TRUE | TOKEN_VAR
  | TOKEN_NAME | TOKEN_NUMBER | TOKEN_STRING
  | TOKEN_LINE
  | TOKEN_ERROR | TOKEN_EOF

record Token =
  tok_type :: TokenType
  tok_start :: nat
  tok_end :: nat
  tok_line :: nat

subsection \<open>Services of the VM\<close>

text \<open>
  Modelled from the spec: the symbol table of the VM (its code is in the VM, not in
  compiler.c). "A mapping from a name (byte range) to a dense non-negative integer,
  assigned by insertion order": the list of the names, a name's symbol being its position.
  \<open>addSymbol\<close> returns "a new index or a sentinel if already present", \<open>findSymbol\<close>
  "an index or sentinel if absent", \<open>ensureSymbol\<close> "the existing or new index". The
  sentinel is -1, the value compiler.c tests for.
\<close>

type_synonym SymbolTable = "string list"

fun findFrom :: "string list \<Rightarrow> string \<Rightarrow> int \<Rightarrow> int" where
  "findFrom [] name i = -1"
| "findFrom (x # xs) name i = (if x = name then i else findFrom xs name (i + 1))"

definition findSymbol :: "SymbolTable \<Rightarrow> string \<Rightarrow> int" where
  "findSymbol symbols name = findFrom symbols name 0"

definition addSymbol :: "SymbolTable \<Rightarrow> string \<Rightarrow> SymbolTable \<times> int" where
  "addSymbol symbols name =
     (if findSymbol symbols name \<noteq> -1 then (symbols, -1)
      else (symbols @ [name], int (length symbols)))"

definition ensureSymbol :: "SymbolTable \<Rightarrow> string \<Rightarrow> SymbolTable \<times> int" where
  "ensureSymbol symbols name =
     (if findSymbol symbols name \<noteq> -1 then (symbols, findSymbol symbols name)
      else addSymbol symbols name)"

text \<open>
  Modelled from the spec: the VM handle, as far as the compiler uses it: the table of the
  top-level variable names, the table of the method signatures, and the two capacities of
  a function object ("a fixed-capacity bytecode buffer and a fixed-capacity constant
  pool"), whose values the VM's headers fix.
\<close>

record VM =
  globalSymbols :: SymbolTable
  methods :: SymbolTable
  maxCodes :: nat
  maxConstants :: nat

subsection \<open>Parser state\<close>

text \<open>
  \<open>source\<close> holds the characters of the buffer before the zero terminator; the
  terminator is at index \<open>length source\<close>, and every index behind it is outside the
  buffer. \<open>diagnostics\<close> is what \<open>error\<close> has written to stderr: for every message its
  line, the lexeme it names, and the text.
\<close>

type_synonym diagnostic = "nat \<times> string \<times> string"

record Parser =
  vm :: VM
  source :: string
  tokenStart :: nat
  currentChar :: nat
  currentLine :: nat
  current :: Token
  previous :: Token
  skipNewlines :: bool
  hasError :: bool
  diagnostics :: "diagnostic list"

subsection \<open>Lexing\<close>

definition isName :: "char \<Rightarrow> bool" where
  "isName c = ((CHR ''a'' \<le> c \<and> c \<le> CHR ''z'') \<or> (CHR ''A'' \<le> c \<and> c \<le> CHR ''Z'')
     \<or> c = CHR ''_'')"

definition isDigit :: "char \<Rightarrow> bool" where
  "isDigit c = (CHR ''0'' \<le> c \<and> c \<le> CHR ''9'')"

definition sourceAt :: "Parser \<Rightarrow> nat \<Rightarrow> error + char" where
  "sourceAt parser i =
     (if i < length (source parser) then Inr (source parser ! i)
      else if i = length (source parser) then Inr (CHR 0x00)
      else Inl OutOfBounds)"

definition peekChar :: "Parser \<Rightarrow> error + char" where
  "peekChar parser = sourceAt parser (currentChar parser)"

definition peekNextChar :: "Parser \<Rightarrow> error + char" where
  "peekNextChar parser =
     ebind (peekChar parser) (\<lambda>c.
       if c = CHR 0x00 then Inr (CHR 0x00)
       else sourceAt parser (currentChar parser + 1))"

definition nextChar :: "Parser \<Rightarrow> error + (char \<times> Parser)" where
  "nextChar parser =
     ebind (peekChar parser) (\<lambda>c.
       Inr (c, parser\<lparr>currentChar := currentChar parser + 1\<rparr>))"

definition makeToken :: "Parser \<Rightarrow> TokenType \<Rightarrow> Parser" where
  "makeToken parser type =
     parser\<lparr>current := \<lparr>tok_type = type, tok_start = tokenStart parser,
                         tok_end = currentChar parser, tok_line = currentLine parser\<rparr>\<rparr>"

lemma ebind_cong [fundef_cong]:
  "m = m' \<Longrightarrow> (\<And>x. m' = Inr x \<Longrightarrow> f x = f' x) \<Longrightarrow> ebind m f = ebind m' f'"
  by (cases m') (simp_all add: ebind_def)

lemma ebind_Inr [simp]: "ebind (Inr x) f = f x"
  by (simp add: ebind_def)

lemma ebind_Inl [simp]: "ebind (Inl e) f = Inl e"
  by (simp add: ebind_def)

lemma ebind_eq_Inr: "ebind m f = Inr y \<longleftrightarrow> (\<exists>x. m = Inr x \<and> f x = Inr y)"
  by (cases m) simp_all

lemma peekChar_nonzero:
  "peekChar p = Inr c \<Longrightarrow> c \<noteq> CHR 0x00 \<Longrightarrow> currentChar p < length (source p)"
  by (auto simp: peekChar_def sourceAt_def split: if_splits)

lemma nextChar_Inr:
  "nextChar p = Inr (c, p') \<longleftrightarrow>
     peekChar p = Inr c \<and> p' = p\<lparr>currentChar := currentChar p + 1\<rparr>"
  by (auto simp: nextChar_def ebind_eq_Inr)

lemma peekChar_Inr_le: "peekChar p = Inr c \<Longrightarrow> currentChar p \<le> length (source p)"
  by (auto simp: peekChar_def sourceAt_def split: if_splits)

lemma sourceAt_update [simp]:
  "sourceAt (p\<lparr>tokenStart := a\<rparr>) i = sourceAt p i"
  "sourceAt (p\<lparr>currentChar := b\<rparr>) i = sourceAt p i"
  "sourceAt (p\<lparr>currentLine := c\<rparr>) i = sourceAt p i"
  "sourceAt (p\<lparr>current := d\<rparr>) i = sourceAt p i"
  "sourceAt (p\<lparr>previous := e\<rparr>) i = sourceAt p i"
  "sourceAt (p\<lparr>skipNewlines := f\<rparr>) i = sourceAt p i"
  by (simp_all add: sourceAt_def)

lemma peekChar_update [simp]:
  "peekChar (p\<lparr>tokenStart := a\<rparr>) = peekChar p"
  "peekChar (p\<lparr>currentLine := c\<rparr>) = peekChar p"
  "peekChar (p\<lparr>current := d\<rparr>) = peekChar p"
  "peekChar (p\<lparr>previous := e\<rparr>) = peekChar p"
  "peekChar (p\<lparr>skipNewlines := f\<rparr>) = peekChar p"
  by (simp_all add: peekChar_def)

lemma peekNextChar_defined: "peekChar p = Inr c \<Longrightarrow> \<exists>d. peekNextChar p = Inr d"
  by (auto simp: peekNextChar_def peekChar_def sourceAt_def split: if_splits)

text \<open>
  \<open>advances p p'\<close>: \<open>p'\<close> is \<open>p\<close> with the cursor moved forward, inside the buffer.
\<close>

definition advances :: "Parser \<Rightarrow> Parser \<Rightarrow> bool" where
  "advances p p' \<longleftrightarrow>
     vm p' = vm p \<and> source p' = source p \<and> tokenStart p' = tokenStart p
     \<and> currentLine p' = currentLine p \<and> current p' = current p \<and> previous p' = previous p
     \<and> skipNewlines p' = skipNewlines p \<and> hasError p' = hasError p
     \<and> diagnostics p' = diagnostics p
     \<and> currentChar p \<le> currentChar p' \<and> currentChar p' \<le> length (source p)"

lemma advances_refl: "currentChar p \<le> length (source p) \<Longrightarrow> advances p p"
  by (simp add: advances_def)

lemma advances_trans: "advances p q \<Longrightarrow> advances q r \<Longrightarrow> advances p r"
  by (auto simp: advances_def)

lemma advances_step:
  "advances (p\<lparr>currentChar := currentChar p + 1\<rparr>) r \<Longrightarrow> advances p r"
  by (auto simp: advances_def)

text \<open>
  Four loops of the lexer have the form \<open>while (P(peekChar(parser))) nextChar(parser);\<close>
  (in \<open>skipLineComment\<close>, \<open>skipWhitespace\<close>, \<open>readNumber\<close> and \<open>readName\<close>).
  \<open>skipWhile P\<close> is that loop.
\<close>

function skipWhile :: "(char \<Rightarrow> bool) \<Rightarrow> Parser \<Rightarrow> error + Parser" where
  "skipWhile P parser =
     ebind (peekChar parser) (\<lambda>c.
       if P c then ebind (nextChar parser) (\<lambda>(_, parser). skipWhile P parser)
       else Inr parser)"
  by pat_completeness auto
termination
  by (relation "measure (\<lambda>(P, p). Suc (length (source p)) - currentChar p)")
     (auto simp: nextChar_Inr dest!: peekChar_Inr_le)

declare skipWhile.simps [simp del]

lemma skipWhile_advances: "skipWhile P p = Inr p' \<Longrightarrow> advances p p'"
proof (induction P p rule: skipWhile.induct)
  case (1 P parser)
  from "1.prems" obtain c where c: "peekChar parser = Inr c"
    by (subst (asm) skipWhile.simps) (auto simp: ebind_eq_Inr)
  show ?case
  proof (cases "P c")
    case True
    let ?q = "parser\<lparr>currentChar := currentChar parser + 1\<rparr>"
    have n: "nextChar parser = Inr (c, ?q)" by (simp add: nextChar_Inr c)
    from "1.prems" True c n have "skipWhile P ?q = Inr p'"
      by (subst (asm) skipWhile.simps) simp
    from "1.IH"[OF c True n refl this] show ?thesis by (rule advances_step)
  next
    case False
    with "1.prems" c have "p' = parser"
      by (subst (asm) skipWhile.simps) auto
    with peekChar_Inr_le[OF c] show ?thesis by (simp add: advances_refl)
  qed
qed

definition skipLineComment :: "Parser \<Rightarrow> error + Parser" where
  "skipLineComment parser = skipWhile (\<lambda>c. c \<noteq> CHR 0x0A \<and> c \<noteq> CHR 0x00) parser"

text \<open>
  \<open>skipBlockComment\<close>. Where the current character is not the terminator the character
  after it is inside the buffer, so the model reads it once, before the two tests that
  use it.
\<close>

function skipBlockCommentLoop :: "Parser \<Rightarrow> nat \<Rightarrow> error + Parser" where
  "skipBlockCommentLoop parser nesting =
     (if nesting > 0 then
        ebind (peekChar parser) (\<lambda>c.
          if c = CHR 0x00 then Inr parser
          else ebind (peekNextChar parser) (\<lambda>d.
            if c = CHR ''/'' \<and> d = CHR ''*'' then
              ebind (nextChar parser) (\<lambda>(_, parser).
              ebind (nextChar parser) (\<lambda>(_, parser).
                skipBlockCommentLoop parser (nesting + 1)))
            else if c = CHR ''*'' \<and> d = CHR ''/'' then
              ebind (nextChar parser) (\<lambda>(_, parser).
              ebind (nextChar parser) (\<lambda>(_, parser).
                skipBlockCommentLoop parser (nesting - 1)))
            else
              ebind (nextChar parser) (\<lambda>(_, parser).
                skipBlockCommentLoop parser nesting)))
      else Inr parser)"
  by pat_completeness auto
termination
  by (relation "measure (\<lambda>(p, n). Suc (length (source p)) - currentChar p)")
     (auto simp: nextChar_Inr dest!: peekChar_Inr_le)

declare skipBlockCommentLoop.simps [simp del]

lemma skipBlockCommentLoop_advances:
  "skipBlockCommentLoop p n = Inr p' \<Longrightarrow> currentChar p \<le> length (source p) \<Longrightarrow> advances p p'"
proof (induction p n rule: skipBlockCommentLoop.induct)
  case (1 parser nesting)
  show ?case
  proof (cases "nesting > 0")
    case False
    with "1.prems" show ?thesis
      by (subst (asm) skipBlockCommentLoop.simps) (simp add: advances_refl)
  next
    case pos: True
    from "1.prems" pos obtain c where c: "peekChar parser = Inr c"
      by (subst (asm) skipBlockCommentLoop.simps) (auto simp: ebind_eq_Inr)
    show ?thesis
    proof (cases "c = CHR 0x00")
      case True
      with "1.prems" pos c show ?thesis
        by (subst (asm) skipBlockCommentLoop.simps) (simp add: advances_refl)
    next
      case nz: False
      from peekNextChar_defined[OF c] obtain d where d: "peekNextChar parser = Inr d" ..
      from nz c have lt: "currentChar parser < length (source parser)"
        by (rule peekChar_nonzero[rotated])
      let ?q = "parser\<lparr>currentChar := currentChar parser + 1\<rparr>"
      let ?r = "?q\<lparr>currentChar := currentChar ?q + 1\<rparr>"
      have n: "nextChar parser = Inr (c, ?q)" by (simp add: nextChar_Inr c)
      consider (opn) "c = CHR ''/'' \<and> d = CHR ''*''"
        | (cls) "\<not> (c = CHR ''/'' \<and> d = CHR ''*'')" "c = CHR ''*'' \<and> d = CHR ''/''"
        | (other) "\<not> (c = CHR ''/'' \<and> d = CHR ''*'')" "\<not> (c = CHR ''*'' \<and> d = CHR ''/'')"
        by blast
      then show ?thesis
      proof cases
        case opn
        with d c lt have "sourceAt parser (currentChar parser + 1) = Inr (CHR ''*'')"
          by (auto simp: peekNextChar_def peekChar_def split: if_splits)
        then have lt2: "currentChar parser + 1 < length (source parser)"
          by (auto simp: sourceAt_def split: if_splits)
        then have n2: "nextChar ?q = Inr (CHR ''*'', ?r)"
          using \<open>sourceAt parser (currentChar parser + 1) = Inr (CHR ''*'')\<close>
          by (simp add: nextChar_Inr peekChar_def sourceAt_def)
        from "1.prems" pos c nz d opn n n2 have "skipBlockCommentLoop ?r (nesting + 1) = Inr p'"
          by (subst (asm) skipBlockCommentLoop.simps) simp
        from "1.IH"(1)[OF pos c nz d opn n refl n2 refl this] lt2
        have "advances ?r p'" by simp
        then show ?thesis by (auto simp: advances_def)
      next
        case cls
        with d c lt have s: "sourceAt parser (currentChar parser + 1) = Inr (CHR ''/'')"
          by (auto simp: peekNextChar_def peekChar_def split: if_splits)
        then have lt2: "currentChar parser + 1 < length (source parser)"
          by (auto simp: sourceAt_def split: if_splits)
        then have n2: "nextChar ?q = Inr (CHR ''/'', ?r)"
          using s by (simp add: nextChar_Inr peekChar_def sourceAt_def)
        from "1.prems" pos c nz d cls n n2 have "skipBlockCommentLoop ?r (nesting - 1) = Inr p'"
          by (subst (asm) skipBlockCommentLoop.simps) simp
        from "1.IH"(2)[OF pos c nz d cls(1) cls(2) n refl n2 refl this] lt2
        have "advances ?r p'" by simp
        then show ?thesis by (auto simp: advances_def)
      next
        case other
        from "1.prems" pos c nz d other n have "skipBlockCommentLoop ?q nesting = Inr p'"
          by (subst (asm) skipBlockCommentLoop.simps) auto
        from "1.IH"(3)[OF pos c nz d other(1) other(2) n refl this] lt
        have "advances ?q p'" by simp
        then show ?thesis by (auto simp: advances_def)
      qed
    qed
  qed
qed

definition skipBlockComment :: "Parser \<Rightarrow> error + Parser" where
  "skipBlockComment parser =
     ebind (nextChar parser) (\<lambda>(_, parser). skipBlockCommentLoop parser 1)"

definition skipWhitespace :: "Parser \<Rightarrow> error + Parser" where
  "skipWhitespace parser = skipWhile (\<lambda>c. c = CHR '' '') parser"

text \<open>
  \<open>isKeyword\<close>: the lexeme has as many characters as the keyword and \<open>strncmp\<close> finds
  them equal. The lexeme lies inside the buffer and holds no zero character.
\<close>

definition isKeyword :: "Parser \<Rightarrow> string \<Rightarrow> bool" where
  "isKeyword parser keyword =
     (let len = currentChar parser - tokenStart parser in
      len = length keyword \<and> take len (drop (tokenStart parser) (source parser)) = keyword)"

definition readNumber :: "Parser \<Rightarrow> error + Parser" where
  "readNumber parser =
     ebind (skipWhile isDigit parser) (\<lambda>parser.
     ebind (peekChar parser) (\<lambda>c.
     ebind (peekNextChar parser) (\<lambda>d.
     ebind (if c = CHR ''.'' \<and> isDigit d
            then ebind (nextChar parser) (\<lambda>(_, parser). skipWhile isDigit parser)
            else Inr parser) (\<lambda>parser.
       Inr (makeToken parser TOKEN_NUMBER)))))"

text \<open>The eleven keyword tests of \<open>readName\<close>, in their order.\<close>

definition readNameType :: "Parser \<Rightarrow> TokenType" where
  "readNameType parser =
     (let type = TOKEN_NAME;
          type = (if isKeyword parser ''class'' then TOKEN_CLASS else type);
          type = (if isKeyword parser ''else'' then TOKEN_ELSE else type);
          type = (if isKeyword parser ''false'' then TOKEN_FALSE else type);
          type = (if isKeyword parser ''fn'' then TOKEN_FN else type);
          type = (if isKeyword parser ''if'' then TOKEN_IF else type);
          type = (if isKeyword parser ''is'' then TOKEN_IS else type);
          type = (if isKeyword parser ''null'' then TOKEN_NULL else type);
          type = (if isKeyword parser ''static'' then TOKEN_STATIC else type);
          type = (if isKeyword parser ''this'' then TOKEN_THIS else type);
          type = (if isKeyword parser ''true'' then TOKEN_TRUE else type);
          type = (if isKeyword parser ''var'' then TOKEN_VAR else type)
      in type)"

definition readName :: "Parser \<Rightarrow> error + Parser" where
  "readName parser =
     ebind (skipWhile (\<lambda>c. isName c \<or> isDigit c) parser) (\<lambda>parser.
       Inr (makeToken parser (readNameType parser)))"

text \<open>
  \<open>readString\<close>: \<open>while (nextChar(parser) != '"');\<close>. Nothing stops the loop at the
  terminator: it reads the terminator as a character, and the next read is behind it.
\<close>

function readStringLoop :: "Parser \<Rightarrow> error + Parser" where
  "readStringLoop parser =
     ebind (nextChar parser) (\<lambda>(c, parser).
       if c \<noteq> CHR 0x22 then readStringLoop parser else Inr parser)"
  by pat_completeness auto
termination
  by (relation "measure (\<lambda>p. Suc (length (source p)) - currentChar p)")
     (auto simp: nextChar_Inr dest!: peekChar_Inr_le)

declare readStringLoop.simps [simp del]

definition readString :: "Parser \<Rightarrow> error + Parser" where
  "readString parser =
     ebind (readStringLoop parser) (\<lambda>parser. Inr (makeToken parser TOKEN_STRING))"

lemma readStringLoop_advances: "readStringLoop p = Inr p' \<Longrightarrow> advances p p' \<and> currentChar p < currentChar p'"
proof (induction p rule: readStringLoop.induct)
  case (1 parser)
  let ?q = "parser\<lparr>currentChar := currentChar parser + 1\<rparr>"
  from "1.prems" obtain c where c: "peekChar parser = Inr c"
    by (subst (asm) readStringLoop.simps) (auto simp: ebind_eq_Inr nextChar_Inr)
  have n: "nextChar parser = Inr (c, ?q)" by (simp add: nextChar_Inr c)
  show ?case
  proof (cases "c \<noteq> CHR 0x22")
    case True
    from "1.prems" True n have "readStringLoop ?q = Inr p'"
      by (subst (asm) readStringLoop.simps) simp
    from "1.IH"[OF n refl True this] show ?thesis by (auto intro: advances_step)
  next
    case False
    with "1.prems" n have "p' = ?q"
      by (subst (asm) readStringLoop.simps) auto
    moreover from False c have "currentChar parser < length (source parser)"
      by (auto dest: peekChar_nonzero)
    ultimately show ?thesis by (auto simp: advances_def)
  qed
qed

lemma skipLineComment_advances: "skipLineComment p = Inr p' \<Longrightarrow> advances p p'"
  unfolding skipLineComment_def by (rule skipWhile_advances)

lemma skipWhitespace_advances: "skipWhitespace p = Inr p' \<Longrightarrow> advances p p'"
  unfolding skipWhitespace_def by (rule skipWhile_advances)

lemma skipBlockComment_advances: "skipBlockComment p = Inr p' \<Longrightarrow> advances p p'"
proof -
  assume a: "skipBlockComment p = Inr p'"
  let ?q = "p\<lparr>currentChar := currentChar p + 1\<rparr>"
  from a obtain c where c: "peekChar p = Inr c" and l: "skipBlockCommentLoop ?q 1 = Inr p'"
    by (auto simp: skipBlockComment_def ebind_eq_Inr nextChar_Inr)
  show ?thesis
  proof (cases "currentChar p < length (source p)")
    case True
    then have "advances ?q p'" using l by (intro skipBlockCommentLoop_advances) auto
    then show ?thesis by (rule advances_step)
  next
    case False
    with peekChar_Inr_le[OF c] have e: "currentChar p = length (source p)" by simp
    then have "peekChar ?q = Inl OutOfBounds" by (simp add: peekChar_def sourceAt_def)
    with l show ?thesis by (subst (asm) skipBlockCommentLoop.simps) simp
  qed
qed

lemma readNameType_not_meta: "readNameType p \<noteq> TOKEN_EOF \<and> readNameType p \<noteq> TOKEN_LINE"
  unfolding readNameType_def Let_def by simp

lemma readName_advances:
  "readName p = Inr p' \<Longrightarrow>
     \<exists>q. advances p q \<and> p' = makeToken q (readNameType q)"
  by (auto simp: readName_def ebind_eq_Inr dest!: skipWhile_advances)

lemma readNumber_advances:
  "readNumber p = Inr p' \<Longrightarrow> \<exists>q. advances p q \<and> p' = makeToken q TOKEN_NUMBER"
proof -
  assume a: "readNumber p = Inr p'"
  from a obtain q1 where 1: "skipWhile isDigit p = Inr q1"
    unfolding readNumber_def ebind_eq_Inr by blast
  from a 1 obtain c where c: "peekChar q1 = Inr c"
    unfolding readNumber_def ebind_eq_Inr by auto
  from peekNextChar_defined[OF c] obtain d where d: "peekNextChar q1 = Inr d" ..
  show ?thesis
  proof (cases "c = CHR ''.'' \<and> isDigit d")
    case True
    let ?q = "q1\<lparr>currentChar := currentChar q1 + 1\<rparr>"
    have n: "nextChar q1 = Inr (c, ?q)" by (simp add: nextChar_Inr c)
    from a 1 c d True n have "ebind (skipWhile isDigit ?q) (\<lambda>parser. Inr (makeToken parser TOKEN_NUMBER)) = Inr p'"
      by (simp add: readNumber_def)
    then obtain q2 where 2: "skipWhile isDigit ?q = Inr q2" and 3: "p' = makeToken q2 TOKEN_NUMBER"
      by (auto simp: ebind_eq_Inr)
    from 2 have "advances q1 q2" by (rule advances_step[OF skipWhile_advances])
    with skipWhile_advances[OF 1] 3 show ?thesis by (blast intro: advances_trans)
  next
    case False
    with a 1 c d have "p' = makeToken q1 TOKEN_NUMBER"
      by (auto simp: readNumber_def)
    with skipWhile_advances[OF 1] show ?thesis by blast
  qed
qed

lemma readString_advances:
  "readString p = Inr p' \<Longrightarrow>
     \<exists>q. advances p q \<and> currentChar p < currentChar q \<and> p' = makeToken q TOKEN_STRING"
  by (auto simp: readString_def ebind_eq_Inr dest!: readStringLoop_advances)

text \<open>
  \<open>lexed p p'\<close>: what one run of the lexer changes: the cursor, which moves forward
  inside the buffer, the line, the start of the token and the token. A token other than
  EOF has consumed at least one character.
\<close>

definition lexed :: "Parser \<Rightarrow> Parser \<Rightarrow> bool" where
  "lexed p p' \<longleftrightarrow>
     vm p' = vm p \<and> source p' = source p \<and> previous p' = previous p
     \<and> skipNewlines p' = skipNewlines p \<and> hasError p' = hasError p
     \<and> diagnostics p' = diagnostics p
     \<and> currentChar p \<le> currentChar p' \<and> currentChar p' \<le> length (source p)
     \<and> (tok_type (current p') \<noteq> TOKEN_EOF \<longrightarrow> currentChar p < currentChar p')"

lemma lexedI:
  "advances (p\<lparr>tokenStart := ts, currentChar := currentChar p + 1, currentLine := l\<rparr>) q \<Longrightarrow>
   lexed p (makeToken q t)"
  by (auto simp: lexed_def advances_def makeToken_def)

lemma lexedI0:
  "currentChar p < length (source p) \<Longrightarrow>
   lexed p (makeToken (p\<lparr>tokenStart := ts, currentChar := currentChar p + 1\<rparr>) t)"
  by (auto simp: lexed_def makeToken_def)

lemma lexed_skip:
  "advances (p\<lparr>tokenStart := ts, currentChar := currentChar p + 1\<rparr>) q \<Longrightarrow> lexed q r \<Longrightarrow> lexed p r"
  by (auto simp: lexed_def advances_def)

text \<open>\<open>readRawToken\<close>: the \<open>while\<close> loop around the \<open>switch\<close> on the character read.\<close>

function readRawToken :: "Parser \<Rightarrow> error + Parser" where
  "readRawToken parser =
     ebind (peekChar parser) (\<lambda>c0.
       if c0 \<noteq> CHR 0x00 then
         (let parser = parser\<lparr>tokenStart := currentChar parser\<rparr> in
          ebind (nextChar parser) (\<lambda>(c, parser).
            if c = CHR ''('' then Inr (makeToken parser TOKEN_LEFT_PAREN)
            else if c = CHR '')'' then Inr (makeToken parser TOKEN_RIGHT_PAREN)
            else if c = CHR ''['' then Inr (makeToken parser TOKEN_LEFT_BRACKET)
            else if c = CHR '']'' then Inr (makeToken parser TOKEN_RIGHT_BRACKET)
            else if c = CHR ''{'' then Inr (makeToken parser TOKEN_LEFT_BRACE)
            else if c = CHR ''}'' then Inr (makeToken parser TOKEN_RIGHT_BRACE)
            else if c = CHR '':'' then Inr (makeToken parser TOKEN_COLON)
            else if c = CHR ''.'' then Inr (makeToken parser TOKEN_DOT)
            else if c = CHR '','' then Inr (makeToken parser TOKEN_COMMA)
            else if c = CHR ''*'' then Inr (makeToken parser TOKEN_STAR)
            else if c = CHR ''/'' then
              ebind (peekChar parser) (\<lambda>d.
                if d = CHR ''/'' then
                  ebind (skipLineComment parser) (\<lambda>parser. readRawToken parser)
                else if d = CHR ''*'' then
                  ebind (skipBlockComment parser) (\<lambda>parser. readRawToken parser)
                else Inr (makeToken parser TOKEN_SLASH))
            else if c = CHR ''%'' then Inr (makeToken parser TOKEN_PERCENT)
            else if c = CHR ''+'' then Inr (makeToken parser TOKEN_PLUS)
            else if c = CHR ''-'' then
              ebind (peekChar parser) (\<lambda>d.
                if isDigit d then readNumber parser
                else Inr (makeToken parser TOKEN_MINUS))
            else if c = CHR ''|'' then Inr (makeToken parser TOKEN_PIPE)
            else if c = CHR ''&'' then Inr (makeToken parser TOKEN_AMP)
            else if c = CHR ''='' then
              ebind (peekChar parser) (\<lambda>d.
                if d = CHR ''='' then
                  ebind (nextChar parser) (\<lambda>(_, parser). Inr (makeToken parser TOKEN_EQEQ))
                else Inr (makeToken parser TOKEN_EQ))
            else if c = CHR ''<'' then
              ebind (peekChar parser) (\<lambda>d.
                if d = CHR ''='' then
                  ebind (nextChar parser) (\<lambda>(_, parser). Inr (makeToken parser TOKEN_LTEQ))
                else Inr (makeToken parser TOKEN_LT))
            else if c = CHR ''>'' then
              ebind (peekChar parser) (\<lambda>d.
                if d = CHR ''='' then
                  ebind (nextChar parser) (\<lambda>(_, parser). Inr (makeToken parser TOKEN_GTEQ))
                else Inr (makeToken parser TOKEN_GT))
            else if c = CHR ''!'' then
              ebind (peekChar parser) (\<lambda>d.
                if d = CHR ''='' then
                  ebind (nextChar parser) (\<lambda>(_, parser). Inr (makeToken parser TOKEN_BANGEQ))
                else Inr (makeToken parser TOKEN_BANG))
            else if c = CHR 0x0A then
              Inr (makeToken (parser\<lparr>currentLine := currentLine parser + 1\<rparr>) TOKEN_LINE)
            else if c = CHR '' '' then
              ebind (skipWhitespace parser) (\<lambda>parser. readRawToken parser)
            else if c = CHR 0x22 then readString parser
            else if isName c then readName parser
            else if isDigit c then readNumber parser
            else Inr (makeToken parser TOKEN_ERROR)))
       else
         Inr (makeToken (parser\<lparr>tokenStart := currentChar parser\<rparr>) TOKEN_EOF))"
  by pat_completeness auto
termination
proof (relation "measure (\<lambda>p. length (source p) - currentChar p)", goal_cases)
  case 1
  show ?case by simp
next
  case (2 parser c0 q x c q' d r)
  from 2 have "currentChar parser < length (source parser)"
    by (auto dest: peekChar_nonzero)
  moreover from 2 have "advances (parser\<lparr>tokenStart := currentChar parser, currentChar := currentChar parser + 1\<rparr>) r"
    by (auto simp: nextChar_Inr dest: skipLineComment_advances)
  ultimately show ?case by (auto simp: advances_def)
next
  case (3 parser c0 q x c q' d r)
  from 3 have "currentChar parser < length (source parser)"
    by (auto dest: peekChar_nonzero)
  moreover from 3 have "advances (parser\<lparr>tokenStart := currentChar parser, currentChar := currentChar parser + 1\<rparr>) r"
    by (auto simp: nextChar_Inr dest: skipBlockComment_advances)
  ultimately show ?case by (auto simp: advances_def)
next
  case (4 parser c0 q x c q' r)
  from 4 have "currentChar parser < length (source parser)"
    by (auto dest: peekChar_nonzero)
  moreover from 4 have "advances (parser\<lparr>tokenStart := currentChar parser, currentChar := currentChar parser + 1\<rparr>) r"
    by (auto simp: nextChar_Inr dest: skipWhitespace_advances)
  ultimately show ?case by (auto simp: advances_def)
qed

declare readRawToken.simps [simp del]

lemma readRawToken_lexed: "readRawToken p = Inr p' \<Longrightarrow> lexed p p'"
proof (induction p rule: readRawToken.induct)
  case (1 parser)
  from "1.prems" obtain c0 where c0: "peekChar parser = Inr c0"
    by (subst (asm) readRawToken.simps) (auto simp: ebind_eq_Inr)
  show ?case
  proof (cases "c0 = CHR 0x00")
    case True
    with "1.prems" c0 have "p' = makeToken (parser\<lparr>tokenStart := currentChar parser\<rparr>) TOKEN_EOF"
      by (subst (asm) readRawToken.simps) simp
    with peekChar_Inr_le[OF c0] show ?thesis by (simp add: lexed_def makeToken_def)
  next
    case nz: False
    let ?qa = "parser\<lparr>tokenStart := currentChar parser\<rparr>"
    let ?q = "parser\<lparr>tokenStart := currentChar parser, currentChar := Suc (currentChar parser)\<rparr>"
    have n: "nextChar ?qa = Inr (c0, ?q)"
      using c0 by (simp add: nextChar_Inr)
    from nz c0 have lt: "currentChar parser < length (source parser)"
      by (auto dest: peekChar_nonzero)
    have pq: "\<exists>d. peekChar ?q = Inr d" using lt by (auto simp: peekChar_def sourceAt_def)
    then obtain d where d: "peekChar ?q = Inr d" ..
    note IH = "1.IH"[OF c0 nz refl n refl]
    have simple: "\<And>t. lexed parser (makeToken ?q t)"
      using lt by (simp add: lexed_def makeToken_def)
    have simple2: "\<And>t. d \<noteq> CHR 0x00 \<Longrightarrow> lexed parser (makeToken (parser\<lparr>tokenStart := currentChar parser, currentChar := Suc (Suc (currentChar parser))\<rparr>) t)"
      using lt d by (auto simp: lexed_def makeToken_def peekChar_def sourceAt_def split: if_splits)
    have line: "lexed parser (makeToken (?q\<lparr>currentLine := Suc (currentLine parser)\<rparr>) TOKEN_LINE)"
      using lt by (simp add: lexed_def makeToken_def)
    have adv: "\<And>r t. advances ?q r \<Longrightarrow> lexed parser (makeToken r t)"
      using lt by (auto simp: lexed_def makeToken_def advances_def)
    have skip: "\<And>r. advances ?q r \<Longrightarrow> lexed r p' \<Longrightarrow> lexed parser p'"
      using lt by (auto simp: lexed_def advances_def)
    from "1.prems" c0 nz n show ?thesis
      apply (subst (asm) readRawToken.simps)
      apply (simp add: Let_def d split: if_splits)
      apply (auto simp: simple simple2 line ebind_eq_Inr nextChar_Inr d
          dest!: readNumber_advances readName_advances readString_advances intro: adv)
        apply (rule skip, erule skipLineComment_advances)
        apply (rule "1.IH"(1)[OF c0 nz refl n refl]; simp add: d)
        apply (rule skip, erule skipBlockComment_advances)
        apply (rule "1.IH"(2)[OF c0 nz refl n refl]; simp add: d)
        apply (rule skip, erule skipWhitespace_advances)
        apply (rule "1.IH"(3)[OF c0 nz refl n refl]; simp add: d)
      done
  qed
qed

text \<open>
  \<open>nextToken\<close>: \<open>previous\<close> takes the lookahead, then raw tokens are read until one is
  emitted. The case labels of the \<open>switch\<close> are the list below.
\<close>

function nextTokenLoop :: "Parser \<Rightarrow> error + Parser" where
  "nextTokenLoop parser =
     ebind (readRawToken parser) (\<lambda>parser.
       let type = tok_type (current parser) in
       if type = TOKEN_LINE then
         (if \<not> skipNewlines parser then Inr (parser\<lparr>skipNewlines := True\<rparr>)
          else nextTokenLoop parser)
       else if type \<in> set [TOKEN_LEFT_PAREN, TOKEN_LEFT_BRACKET, TOKEN_LEFT_BRACE, TOKEN_DOT,
           TOKEN_COMMA, TOKEN_STAR, TOKEN_SLASH, TOKEN_PERCENT, TOKEN_PLUS, TOKEN_MINUS,
           TOKEN_PIPE, TOKEN_AMP, TOKEN_BANG, TOKEN_EQ, TOKEN_LT, TOKEN_GT, TOKEN_LTEQ,
           TOKEN_GTEQ, TOKEN_EQEQ, TOKEN_BANGEQ, TOKEN_CLASS, TOKEN_ELSE, TOKEN_IF, TOKEN_IS,
           TOKEN_STATIC, TOKEN_VAR]
       then Inr (parser\<lparr>skipNewlines := True\<rparr>)
       else Inr (parser\<lparr>skipNewlines := False\<rparr>))"
  by pat_completeness auto
termination
  by (relation "measure (\<lambda>p. length (source p) - currentChar p)")
     (auto dest!: readRawToken_lexed simp: lexed_def)

declare nextTokenLoop.simps [simp del]

definition nextToken :: "Parser \<Rightarrow> error + Parser" where
  "nextToken parser = nextTokenLoop (parser\<lparr>previous := current parser\<rparr>)"

text \<open>
  \<open>scanned p p'\<close>: what \<open>nextToken\<close> keeps and how it moves the cursor.
\<close>

definition scanned :: "Parser \<Rightarrow> Parser \<Rightarrow> bool" where
  "scanned p p' \<longleftrightarrow>
     vm p' = vm p \<and> source p' = source p \<and> hasError p' = hasError p
     \<and> diagnostics p' = diagnostics p
     \<and> currentChar p \<le> currentChar p' \<and> currentChar p' \<le> length (source p)
     \<and> (tok_type (current p') \<noteq> TOKEN_EOF \<longrightarrow> currentChar p < currentChar p')"

lemma nextTokenLoop_scanned:
  "nextTokenLoop p = Inr p' \<Longrightarrow> scanned p p' \<and> previous p' = previous p"
proof (induction p rule: nextTokenLoop.induct)
  case (1 parser)
  from "1.prems" obtain q where q: "readRawToken parser = Inr q"
    by (subst (asm) nextTokenLoop.simps) (auto simp: ebind_eq_Inr)
  note lq = readRawToken_lexed[OF q]
  show ?case
  proof (cases "tok_type (current q) = TOKEN_LINE \<and> skipNewlines q")
    case True
    with "1.prems" q have "nextTokenLoop q = Inr p'"
      by (subst (asm) nextTokenLoop.simps) (simp add: Let_def)
    from "1.IH"[OF q refl _ _ this] True have "scanned q p' \<and> previous p' = previous q"
      by simp
    with lq show ?thesis by (auto simp: scanned_def lexed_def)
  next
    case False
    with "1.prems" q have "\<exists>b. p' = q\<lparr>skipNewlines := b\<rparr>"
      by (subst (asm) nextTokenLoop.simps) (auto simp: Let_def split: if_splits)
    with lq show ?thesis by (auto simp: scanned_def lexed_def)
  qed
qed

lemma nextToken_scanned:
  "nextToken p = Inr p' \<Longrightarrow> scanned p p' \<and> previous p' = current p"
  by (auto simp: nextToken_def scanned_def dest!: nextTokenLoop_scanned)

text \<open>
  What is left to read: the characters behind the cursor and the lookahead, unless it is
  EOF. Consuming a token other than EOF makes it smaller.
\<close>

definition remaining :: "Parser \<Rightarrow> nat" where
  "remaining p =
     2 * (length (source p) - currentChar p) + (if tok_type (current p) = TOKEN_EOF then 0 else 1)"

lemma nextToken_remaining:
  assumes "nextToken p = Inr p'"
  shows "remaining p' \<le> remaining p"
    and "tok_type (current p) \<noteq> TOKEN_EOF \<Longrightarrow> remaining p' < remaining p"
  using nextToken_scanned[OF assms] by (auto simp: remaining_def scanned_def)

subsection \<open>Function objects and values\<close>

text \<open>
  A cell of the bytecode buffer. The numbering of the opcodes is declared in the VM's
  header, which is not part of compiler.c, so an opcode is kept by its name;
  \<open>CODE_CALL n\<close> is the code \<open>CODE_CALL_0 + n\<close>. \<open>ARG b\<close> is an operand: an \<open>int\<close> that
  \<open>emit\<close> takes as a \<open>Code\<close> and stores in one byte of the buffer.
\<close>

datatype Code =
    CODE_CONSTANT | CODE_NULL | CODE_FALSE | CODE_TRUE | CODE_CLASS | CODE_SUBCLASS
  | CODE_METACLASS | CODE_METHOD | CODE_DUP | CODE_POP | CODE_LOAD_LOCAL | CODE_STORE_LOCAL
  | CODE_LOAD_GLOBAL | CODE_STORE_GLOBAL | CODE_CALL nat | CODE_JUMP | CODE_JUMP_IF
  | CODE_IS | CODE_END
  | ARG "8 word"

abbreviation CODE_CALL_0 :: Code where "CODE_CALL_0 \<equiv> CODE_CALL 0"
abbreviation CODE_CALL_1 :: Code where "CODE_CALL_1 \<equiv> CODE_CALL 1"

text \<open>
  Modelled from the spec: values and function objects of the VM. A number is kept as the
  rational its literal denotes (the VM holds the nearest double). An object is kept by
  its content, not by its address. Of the two buffers of a function object the model
  keeps the cells written so far: \<open>numCodes\<close> is \<open>length (bytecode fn)\<close> and
  \<open>numConstants\<close> is \<open>length (constants fn)\<close>.
\<close>

datatype Value = NUM_VAL rat | OBJ_STRING string | OBJ_FN "Code list" "Value list"

record ObjFn =
  bytecode :: "Code list"
  constants :: "Value list"

definition OBJ_VAL :: "ObjFn \<Rightarrow> Value" where
  "OBJ_VAL f = OBJ_FN (bytecode f) (constants f)"

definition newFunction :: ObjFn where
  "newFunction = \<lparr>bytecode = [], constants = []\<rparr>"

text \<open>
  Modelled from the C standard: \<open>strtod\<close> on a text that begins, after white space and
  an optional sign, with a digit: a decimal number with optional fraction and exponent,
  or a hexadecimal one behind \<open>0x\<close>. The result is the value denoted, or \<open>None\<close> where
  no conversion is made (\<open>end == start\<close>). \<open>number\<close> calls \<open>strtod\<close> at the start of a
  NUMBER token, which begins with a digit or with \<open>-\<close> and a digit; for another
  beginning the model makes no conversion.
\<close>

definition isHexDigit :: "char \<Rightarrow> bool" where
  "isHexDigit c = (isDigit c \<or> (CHR ''a'' \<le> c \<and> c \<le> CHR ''f'') \<or> (CHR ''A'' \<le> c \<and> c \<le> CHR ''F''))"

definition digitVal :: "char \<Rightarrow> nat" where
  "digitVal c =
     (if isDigit c then of_char c - 48
      else if CHR ''a'' \<le> c then of_char c - 87
      else of_char c - 55)"

definition digitsVal :: "nat \<Rightarrow> string \<Rightarrow> nat" where
  "digitsVal base ds = foldl (\<lambda>acc c. base * acc + digitVal c) 0 ds"

definition exponentOf :: "char \<Rightarrow> char \<Rightarrow> string \<Rightarrow> int" where
  "exponentOf lower upper r =
     (if r \<noteq> [] \<and> (hd r = lower \<or> hd r = upper) then
        (let r = tl r;
             neg = (r \<noteq> [] \<and> hd r = CHR ''-'');
             r = (if r \<noteq> [] \<and> (hd r = CHR ''-'' \<or> hd r = CHR ''+'') then tl r else r) in
         if r \<noteq> [] \<and> isDigit (hd r)
         then (if neg then - int (digitsVal 10 (takeWhile isDigit r))
               else int (digitsVal 10 (takeWhile isDigit r)))
         else 0)
      else 0)"

definition scaleBy :: "rat \<Rightarrow> nat \<Rightarrow> int \<Rightarrow> rat" where
  "scaleBy x base e =
     (if 0 \<le> e then x * of_nat (base ^ nat e) else x / of_nat (base ^ nat (- e)))"

definition mantissa ::
  "nat \<Rightarrow> nat \<Rightarrow> nat \<Rightarrow> (char \<Rightarrow> bool) \<Rightarrow> char \<Rightarrow> char \<Rightarrow> string \<Rightarrow> rat" where
  "mantissa base expBase digitWeight isDig lower upper s =
     (let ip = takeWhile isDig s;
          r = dropWhile isDig s;
          point = (r \<noteq> [] \<and> hd r = CHR ''.'');
          fp = (if point then takeWhile isDig (tl r) else []);
          r = (if point then dropWhile isDig (tl r) else r) in
      scaleBy (of_nat (digitsVal base (ip @ fp))) expBase
        (exponentOf lower upper r - int (digitWeight * length fp)))"

definition isSpace :: "char \<Rightarrow> bool" where
  "isSpace c = (c \<in> set [CHR '' '', CHR 0x09, CHR 0x0A, CHR 0x0B, CHR 0x0C, CHR 0x0D])"

definition strtod :: "string \<Rightarrow> rat option" where
  "strtod text =
     (let s = dropWhile isSpace text;
          neg = (s \<noteq> [] \<and> hd s = CHR ''-'');
          s = (if s \<noteq> [] \<and> (hd s = CHR ''-'' \<or> hd s = CHR ''+'') then tl s else s);
          h = drop 2 s;
          hex = (2 \<le> length s \<and> s ! 0 = CHR ''0'' \<and> (s ! 1 = CHR ''x'' \<or> s ! 1 = CHR ''X'')
                 \<and> ((h \<noteq> [] \<and> isHexDigit (hd h))
                      \<or> (2 \<le> length h \<and> h ! 0 = CHR ''.'' \<and> isHexDigit (h ! 1))));
          v = (if hex then mantissa 16 2 4 isHexDigit (CHR ''p'') (CHR ''P'') h
               else mantissa 10 10 1 isDigit (CHR ''e'') (CHR ''E'') s) in
      if s \<noteq> [] \<and> isDigit (hd s) then Some (if neg then - v else v) else None)"

subsection \<open>Compiler frames\<close>

text \<open>
  \<open>parser\<close> is the parser state all frames share: the frame at work carries it, and a
  frame that has another frame compile for it takes it back afterwards. Of the chain
  behind \<open>parent\<close> the code reads whether it is empty and the \<open>isMethod\<close> flags along it:
  \<open>parents\<close> is the list of these flags, innermost first, empty at the top level.
\<close>

record Compiler =
  parser :: Parser
  parents :: "bool list"
  fn :: ObjFn
  locals :: SymbolTable
  isMethod :: bool

definition numCodes :: "Compiler \<Rightarrow> nat" where
  "numCodes compiler = length (bytecode (fn compiler))"

definition initCompiler :: "Parser \<Rightarrow> bool list \<Rightarrow> bool \<Rightarrow> Compiler" where
  "initCompiler p parent method =
     \<lparr>parser = p, parents = parent, fn = newFunction, locals = [], isMethod = method\<rparr>"

text \<open>The frame a compiler opens for a nested function or method: itself as the parent.\<close>

definition childOf :: "Compiler \<Rightarrow> bool list" where
  "childOf compiler = isMethod compiler # parents compiler"

text \<open>The characters of a token; every token lies inside the buffer.\<close>

definition lexeme :: "Parser \<Rightarrow> Token \<Rightarrow> string" where
  "lexeme p token =
     take (tok_end token - tok_start token) (drop (tok_start token) (source p))"

definition error :: "Compiler \<Rightarrow> string \<Rightarrow> Compiler" where
  "error compiler message =
     compiler\<lparr>parser := (parser compiler)\<lparr>
       hasError := True,
       diagnostics := diagnostics (parser compiler) @
         [(tok_line (previous (parser compiler)),
           lexeme (parser compiler) (previous (parser compiler)), message)]\<rparr>\<rparr>"

subsection \<open>Parsing\<close>

text \<open>\<open>nextToken(compiler->parser)\<close>.\<close>

definition advance :: "Compiler \<Rightarrow> error + Compiler" where
  "advance compiler =
     ebind (nextToken (parser compiler)) (\<lambda>p. Inr (compiler\<lparr>parser := p\<rparr>))"

definition peek :: "Compiler \<Rightarrow> TokenType" where
  "peek compiler = tok_type (current (parser compiler))"

definition match :: "Compiler \<Rightarrow> TokenType \<Rightarrow> error + (bool \<times> Compiler)" where
  "match compiler expected =
     (if peek compiler \<noteq> expected then Inr (False, compiler)
      else ebind (advance compiler) (\<lambda>compiler. Inr (True, compiler)))"

definition consume :: "Compiler \<Rightarrow> TokenType \<Rightarrow> string \<Rightarrow> error + Compiler" where
  "consume compiler expected errorMessage =
     ebind (advance compiler) (\<lambda>compiler.
       if tok_type (previous (parser compiler)) \<noteq> expected
       then Inr (error compiler errorMessage)
       else Inr compiler)"

subsection \<open>Code generation utilities\<close>

text \<open>
  \<open>emit\<close> returns the offset of the cell it wrote, \<open>numCodes - 1\<close>; the model returns the
  frame, and \<open>statement\<close>, the one place that uses the offset, computes it there.
\<close>

definition emit :: "Compiler \<Rightarrow> Code \<Rightarrow> error + Compiler" where
  "emit compiler code =
     (if numCodes compiler < maxCodes (vm (parser compiler))
      then Inr (compiler\<lparr>fn := (fn compiler)\<lparr>bytecode := bytecode (fn compiler) @ [code]\<rparr>\<rparr>)
      else Inl CodeOverflow)"

definition addConstant :: "Compiler \<Rightarrow> Value \<Rightarrow> error + (nat \<times> Compiler)" where
  "addConstant compiler constant =
     (if length (constants (fn compiler)) < maxConstants (vm (parser compiler))
      then Inr (length (constants (fn compiler)),
                compiler\<lparr>fn := (fn compiler)\<lparr>constants := constants (fn compiler) @ [constant]\<rparr>\<rparr>)
      else Inl ConstantOverflow)"

definition setGlobalSymbols :: "Compiler \<Rightarrow> SymbolTable \<Rightarrow> Compiler" where
  "setGlobalSymbols compiler symbols =
     compiler\<lparr>parser := (parser compiler)\<lparr>vm := (vm (parser compiler))\<lparr>globalSymbols := symbols\<rparr>\<rparr>\<rparr>"

definition setMethods :: "Compiler \<Rightarrow> SymbolTable \<Rightarrow> Compiler" where
  "setMethods compiler symbols =
     compiler\<lparr>parser := (parser compiler)\<lparr>vm := (vm (parser compiler))\<lparr>methods := symbols\<rparr>\<rparr>\<rparr>"

text \<open>\<open>ensureSymbol(&compiler->parser->vm->methods, name, length)\<close>.\<close>

definition ensureMethod :: "Compiler \<Rightarrow> string \<Rightarrow> int \<times> Compiler" where
  "ensureMethod compiler name =
     (let (symbols, symbol) = ensureSymbol (methods (vm (parser compiler))) name
      in (symbol, setMethods compiler symbols))"

definition declareVariable :: "Compiler \<Rightarrow> error + (int \<times> Compiler)" where
  "declareVariable compiler =
     ebind (consume compiler TOKEN_NAME ''Expected variable name.'') (\<lambda>compiler.
       let name = lexeme (parser compiler) (previous (parser compiler));
           (symbol, compiler) =
             (if parents compiler \<noteq> [] then
                (let (symbols, symbol) = addSymbol (locals compiler) name
                 in (symbol, compiler\<lparr>locals := symbols\<rparr>))
              else
                (let (symbols, symbol) = addSymbol (globalSymbols (vm (parser compiler))) name
                 in (symbol, setGlobalSymbols compiler symbols)))
       in if symbol = -1 then Inr (symbol, error compiler ''Variable is already defined.'')
          else Inr (symbol, compiler))"

definition defineVariable :: "Compiler \<Rightarrow> int \<Rightarrow> error + Compiler" where
  "defineVariable compiler symbol =
     (if parents compiler = [] then
        ebind (emit compiler CODE_STORE_GLOBAL) (\<lambda>compiler.
          emit compiler (ARG (of_int symbol)))
      else emit compiler CODE_DUP)"

subsection \<open>Grammar\<close>

definition PREC_NONE :: nat where "PREC_NONE = 0"
definition PREC_LOWEST :: nat where "PREC_LOWEST = 1"
definition PREC_ASSIGNMENT :: nat where "PREC_ASSIGNMENT = 2"
definition PREC_IS :: nat where "PREC_IS = 3"
definition PREC_EQUALITY :: nat where "PREC_EQUALITY = 4"
definition PREC_COMPARISON :: nat where "PREC_COMPARISON = 5"
definition PREC_BITWISE :: nat where "PREC_BITWISE = 6"
definition PREC_TERM :: nat where "PREC_TERM = 7"
definition PREC_FACTOR :: nat where "PREC_FACTOR = 8"
definition PREC_UNARY :: nat where "PREC_UNARY = 9"
definition PREC_CALL :: nat where "PREC_CALL = 10"

text \<open>The function pointers of the rule table, by the name of the function.\<close>

datatype GrammarFn =
    G_grouping | G_unaryOp | G_boolean | G_function | G_name | G_null | G_number | G_string
  | G_this | G_call | G_is | G_infixOp

datatype SignatureFn = S_parameterList | S_infixSignature | S_unarySignature | S_mixedSignature

record GrammarRule =
  rule_prefix :: "GrammarFn option"
  rule_infix :: "GrammarFn option"
  rule_method :: "SignatureFn option"
  rule_precedence :: nat
  rule_name :: "string option"

definition UNUSED :: GrammarRule where
  "UNUSED = \<lparr>rule_prefix = None, rule_infix = None, rule_method = None,
              rule_precedence = PREC_NONE, rule_name = None\<rparr>"

definition PREFIX :: "GrammarFn \<Rightarrow> GrammarRule" where
  "PREFIX f = \<lparr>rule_prefix = Some f, rule_infix = None, rule_method = None,
                rule_precedence = PREC_NONE, rule_name = None\<rparr>"

definition INFIX :: "nat \<Rightarrow> GrammarFn \<Rightarrow> GrammarRule" where
  "INFIX prec f = \<lparr>rule_prefix = None, rule_infix = Some f, rule_method = None,
                    rule_precedence = prec, rule_name = None\<rparr>"

definition INFIX_OPERATOR :: "nat \<Rightarrow> string \<Rightarrow> GrammarRule" where
  "INFIX_OPERATOR prec name =
     \<lparr>rule_prefix = None, rule_infix = Some G_infixOp, rule_method = Some S_infixSignature,
      rule_precedence = prec, rule_name = Some name\<rparr>"

definition OPERATOR :: "nat \<Rightarrow> string \<Rightarrow> GrammarRule" where
  "OPERATOR prec name =
     \<lparr>rule_prefix = Some G_unaryOp, rule_infix = Some G_infixOp,
      rule_method = Some S_mixedSignature, rule_precedence = prec, rule_name = Some name\<rparr>"

definition PREFIX_OPERATOR :: "string \<Rightarrow> GrammarRule" where
  "PREFIX_OPERATOR name =
     \<lparr>rule_prefix = Some G_unaryOp, rule_infix = None, rule_method = Some S_unarySignature,
      rule_precedence = PREC_NONE, rule_name = Some name\<rparr>"

fun rules :: "TokenType \<Rightarrow> GrammarRule" where
  "rules TOKEN_LEFT_PAREN = PREFIX G_grouping"
| "rules TOKEN_RIGHT_PAREN = UNUSED"
| "rules TOKEN_LEFT_BRACKET = UNUSED"
| "rules TOKEN_RIGHT_BRACKET = UNUSED"
| "rules TOKEN_LEFT_BRACE = UNUSED"
| "rules TOKEN_RIGHT_BRACE = UNUSED"
| "rules TOKEN_COLON = UNUSED"
| "rules TOKEN_DOT = INFIX PREC_CALL G_call"
| "rules TOKEN_COMMA = UNUSED"
| "rules TOKEN_STAR = INFIX_OPERATOR PREC_FACTOR ''* ''"
| "rules TOKEN_SLASH = INFIX_OPERATOR PREC_FACTOR ''/ ''"
| "rules TOKEN_PERCENT = INFIX_OPERATOR PREC_TERM ''% ''"
| "rules TOKEN_PLUS = INFIX_OPERATOR PREC_TERM ''+ ''"
| "rules TOKEN_MINUS = OPERATOR PREC_TERM ''- ''"
| "rules TOKEN_PIPE = UNUSED"
| "rules TOKEN_AMP = UNUSED"
| "rules TOKEN_BANG = PREFIX_OPERATOR ''!''"
| "rules TOKEN_EQ = UNUSED"
| "rules TOKEN_LT = INFIX_OPERATOR PREC_COMPARISON ''< ''"
| "rules TOKEN_GT = INFIX_OPERATOR PREC_COMPARISON ''> ''"
| "rules TOKEN_LTEQ = INFIX_OPERATOR PREC_COMPARISON ''<= ''"
| "rules TOKEN_GTEQ = INFIX_OPERATOR PREC_COMPARISON ''>= ''"
| "rules TOKEN_EQEQ = INFIX_OPERATOR PREC_EQUALITY ''== ''"
| "rules TOKEN_BANGEQ = INFIX_OPERATOR PREC_EQUALITY ''!= ''"
| "rules TOKEN_CLASS = UNUSED"
| "rules TOKEN_ELSE = UNUSED"
| "rules TOKEN_FALSE = PREFIX G_boolean"
| "rules TOKEN_FN = PREFIX G_function"
| "rules TOKEN_IF = UNUSED"
| "rules TOKEN_IS = INFIX PREC_IS G_is"
| "rules TOKEN_NULL = PREFIX G_null"
| "rules TOKEN_STATIC = UNUSED"
| "rules TOKEN_THIS = PREFIX G_this"
| "rules TOKEN_TRUE = PREFIX G_boolean"
| "rules TOKEN_VAR = UNUSED"
| "rules TOKEN_NAME = \<lparr>rule_prefix = Some G_name, rule_infix = None,
       rule_method = Some S_parameterList, rule_precedence = PREC_NONE, rule_name = None\<rparr>"
| "rules TOKEN_NUMBER = PREFIX G_number"
| "rules TOKEN_STRING = PREFIX G_string"
| "rules TOKEN_LINE = UNUSED"
| "rules TOKEN_ERROR = UNUSED"
| "rules TOKEN_EOF = UNUSED"

definition MAX_NAME :: nat where "MAX_NAME = 256"

text \<open>
  \<open>strncpy(name, source + start, n)\<close> into the empty name buffer: the characters up to
  a zero character, then zeros up to \<open>n\<close>; behind the buffer when \<open>n\<close> is more than
  \<open>MAX_NAME\<close>.
\<close>

definition strncpy :: "string \<Rightarrow> nat \<Rightarrow> error + string" where
  "strncpy src n =
     (if n > MAX_NAME then Inl NameOverflow
      else (let t = takeWhile (\<lambda>c. c \<noteq> CHR 0x00) (take n src)
            in Inr (t @ replicate (n - length t) (CHR 0x00))))"

text \<open>\<open>name[(*length)++] = ' '\<close>.\<close>

definition addSpace :: "string \<Rightarrow> error + string" where
  "addSpace name = (if length name < MAX_NAME then Inr (name @ '' '') else Inl NameOverflow)"

text \<open>
  The \<open>do ... while (match(compiler, TOKEN_COMMA))\<close> loop of \<open>parameterList\<close>; \<open>name\<close> is
  \<open>None\<close> for the NULL the function expression passes.
\<close>

lemma advance_remaining:
  assumes "advance c = Inr c'"
  shows "remaining (parser c') \<le> remaining (parser c)"
    and "peek c \<noteq> TOKEN_EOF \<Longrightarrow> remaining (parser c') < remaining (parser c)"
  using assms nextToken_remaining[of "parser c"]
  by (auto simp: advance_def ebind_eq_Inr peek_def)

lemma remaining_update [simp]:
  "remaining (p\<lparr>vm := v\<rparr>) = remaining p"
  "remaining (p\<lparr>hasError := h\<rparr>) = remaining p"
  "remaining (p\<lparr>diagnostics := d\<rparr>) = remaining p"
  "remaining (p\<lparr>previous := t\<rparr>) = remaining p"
  "remaining (p\<lparr>skipNewlines := b\<rparr>) = remaining p"
  by (simp_all add: remaining_def)

lemma error_remaining [simp]: "remaining (parser (error c m)) = remaining (parser c)"
  by (simp add: error_def)

lemma setGlobalSymbols_remaining [simp]:
  "remaining (parser (setGlobalSymbols c t)) = remaining (parser c)"
  by (simp add: setGlobalSymbols_def)

lemma setMethods_remaining [simp]:
  "remaining (parser (setMethods c t)) = remaining (parser c)"
  by (simp add: setMethods_def)

lemma consume_remaining:
  assumes "consume c t m = Inr c'"
  shows "remaining (parser c') \<le> remaining (parser c)"
    and "peek c \<noteq> TOKEN_EOF \<Longrightarrow> remaining (parser c') < remaining (parser c)"
  using assms advance_remaining[of c]
  by (auto simp: consume_def ebind_eq_Inr split: if_splits)

lemma match_remaining:
  assumes "match c t = Inr (b, c')"
  shows "remaining (parser c') \<le> remaining (parser c)"
    and "b \<Longrightarrow> t \<noteq> TOKEN_EOF \<Longrightarrow> remaining (parser c') < remaining (parser c)"
  using assms advance_remaining[of c]
  by (auto simp: match_def ebind_eq_Inr split: if_splits)

lemma declareVariable_remaining:
  assumes "declareVariable c = Inr (sy, c')"
  shows "remaining (parser c') \<le> remaining (parser c)"
proof -
  from assms obtain x where x: "consume c TOKEN_NAME ''Expected variable name.'' = Inr x"
    by (auto simp: declareVariable_def ebind_eq_Inr)
  with assms have "remaining (parser c') = remaining (parser x)"
    by (auto simp: declareVariable_def Let_def split: if_splits prod.splits)
  with consume_remaining(1)[OF x] show ?thesis by simp
qed

function parameterListLoop :: "Compiler \<Rightarrow> string option \<Rightarrow> error + (Compiler \<times> string option)" where
  "parameterListLoop compiler name =
     ebind (declareVariable compiler) (\<lambda>(_, compiler).
     ebind (case name of None \<Rightarrow> Inr None
            | Some nm \<Rightarrow> ebind (addSpace nm) (\<lambda>nm. Inr (Some nm))) (\<lambda>name.
     ebind (match compiler TOKEN_COMMA) (\<lambda>(m, compiler).
       if m then parameterListLoop compiler name else Inr (compiler, name))))"
  by pat_completeness auto
termination
proof (relation "measure (\<lambda>(c, n). remaining (parser c))", goal_cases)
  case 1
  show ?case by simp
next
  case (2 compiler name x sy c1 name' y m c2)
  then show ?case
    using declareVariable_remaining[of compiler sy c1] match_remaining(2)[of c1 TOKEN_COMMA True c2]
    by auto
qed

declare parameterListLoop.simps [simp del]

definition parameterList :: "Compiler \<Rightarrow> string option \<Rightarrow> error + (Compiler \<times> string option)" where
  "parameterList compiler name =
     ebind (match compiler TOKEN_LEFT_PAREN) (\<lambda>(m, compiler).
       if m then
         ebind (parameterListLoop compiler name) (\<lambda>(compiler, name).
         ebind (consume compiler TOKEN_RIGHT_PAREN ''Expect ')' after parameters.'') (\<lambda>compiler.
           Inr (compiler, name)))
       else Inr (compiler, name))"

definition infixSignature :: "Compiler \<Rightarrow> string \<Rightarrow> error + (Compiler \<times> string)" where
  "infixSignature compiler name =
     ebind (addSpace name) (\<lambda>name.
     ebind (declareVariable compiler) (\<lambda>(_, compiler). Inr (compiler, name)))"

definition unarySignature :: "Compiler \<Rightarrow> string \<Rightarrow> error + (Compiler \<times> string)" where
  "unarySignature compiler name = Inr (compiler, name)"

definition mixedSignature :: "Compiler \<Rightarrow> string \<Rightarrow> error + (Compiler \<times> string)" where
  "mixedSignature compiler name =
     (if tok_type (current (parser compiler)) = TOKEN_NAME then
        ebind (addSpace name) (\<lambda>name.
        ebind (declareVariable compiler) (\<lambda>(_, compiler). Inr (compiler, name)))
      else Inr (compiler, name))"

text \<open>The call \<open>signature(&methodCompiler, name, &length)\<close> through the pointer.\<close>

definition callSignatureFn ::
  "SignatureFn \<Rightarrow> Compiler \<Rightarrow> string \<Rightarrow> error + (Compiler \<times> string)" where
  "callSignatureFn signature compiler name =
     (case signature of
        S_parameterList \<Rightarrow>
          ebind (parameterList compiler (Some name)) (\<lambda>(compiler, name).
            case name of None \<Rightarrow> Inl NullCall | Some name \<Rightarrow> Inr (compiler, name))
      | S_infixSignature \<Rightarrow> infixSignature compiler name
      | S_unarySignature \<Rightarrow> unarySignature compiler name
      | S_mixedSignature \<Rightarrow> mixedSignature compiler name)"

definition boolean :: "Compiler \<Rightarrow> bool \<Rightarrow> error + Compiler" where
  "boolean compiler allowAssignment =
     (if tok_type (previous (parser compiler)) = TOKEN_FALSE then emit compiler CODE_FALSE
      else emit compiler CODE_TRUE)"

definition null_fn :: "Compiler \<Rightarrow> bool \<Rightarrow> error + Compiler" where
  "null_fn compiler allowAssignment = emit compiler CODE_NULL"

definition number :: "Compiler \<Rightarrow> bool \<Rightarrow> error + Compiler" where
  "number compiler allowAssignment =
     (let token = previous (parser compiler);
          (compiler, value) =
            (case strtod (drop (tok_start token) (source (parser compiler))) of
               None \<Rightarrow> (error compiler ''Invalid number literal.'', 0)
             | Some v \<Rightarrow> (compiler, v)) in
      ebind (addConstant compiler (NUM_VAL value)) (\<lambda>(constant, compiler).
      ebind (emit compiler CODE_CONSTANT) (\<lambda>compiler.
        emit compiler (ARG (of_nat constant)))))"

text \<open>
  \<open>string\<close>: the length is \<open>end - start - 2\<close>; a STRING token has its two quotes, so
  the subtraction does not go below zero.
\<close>

definition string_fn :: "Compiler \<Rightarrow> bool \<Rightarrow> error + Compiler" where
  "string_fn compiler allowAssignment =
     (let token = previous (parser compiler);
          len = tok_end token - tok_start token - 2;
          start = drop (tok_start token + 1) (source (parser compiler)) in
      ebind (addConstant compiler (OBJ_STRING (take len start))) (\<lambda>(constant, compiler).
      ebind (emit compiler CODE_CONSTANT) (\<lambda>compiler.
        emit compiler (ARG (of_nat constant)))))"

text \<open>\<open>this_\<close> (here \<open>this_fn\<close>): the walk up the parent chain finds a frame with \<open>isMethod\<close> set, or none.\<close>

definition this_fn :: "Compiler \<Rightarrow> bool \<Rightarrow> error + Compiler" where
  "this_fn compiler allowAssignment =
     (let insideMethod = list_ex (\<lambda>m. m) (isMethod compiler # parents compiler) in
      if \<not> insideMethod then Inr (error compiler ''Cannot use 'this' outside of a method.'')
      else ebind (emit compiler CODE_LOAD_LOCAL) (\<lambda>compiler. emit compiler (ARG 0)))"

text \<open>\<open>compiler->fn->bytecode[offset] = value\<close>, the patch of a jump operand.\<close>

definition patch :: "Compiler \<Rightarrow> nat \<Rightarrow> nat \<Rightarrow> Compiler" where
  "patch compiler offset value =
     compiler\<lparr>fn := (fn compiler)\<lparr>bytecode := (bytecode (fn compiler))[offset := ARG (of_nat value)]\<rparr>\<rparr>"

text \<open>
  The constant pool holds a pointer to the function object of a nested frame, entered
  before the frame is compiled: when the frame is done the entry shows the finished
  function.
\<close>

definition setConstant :: "Compiler \<Rightarrow> nat \<Rightarrow> Value \<Rightarrow> Compiler" where
  "setConstant compiler index value =
     compiler\<lparr>fn := (fn compiler)\<lparr>constants := (constants (fn compiler))[index := value]\<rparr>\<rparr>"

text \<open>
  The grammar functions call each other, directly and through the rule table. In the
  model each of them takes the grammar as \<open>rec\<close>: a function from a call, the name of
  a grammar function with its arguments, to the result of that call. \<open>grammar\<close>, below,
  closes the recursion, with a bound on the depth of the calls.
\<close>

datatype Call =
    ParsePrecedence Compiler bool nat
  | InfixLoop Compiler bool nat
  | Grouping Compiler bool
  | UnaryOp Compiler bool
  | Function Compiler bool
  | Name Compiler bool
  | CallFn Compiler bool
  | Is Compiler bool
  | InfixOp Compiler bool
  | Statement Compiler
  | Block Compiler TokenType string
  | Method Compiler bool SignatureFn
  | Definition Compiler
  | ClassBody Compiler

type_synonym Grammar = "Call \<Rightarrow> error + Compiler"

text \<open>The calls \<open>prefix(compiler, allowAssignment)\<close> and \<open>infix(compiler, allowAssignment)\<close>.\<close>

definition callGrammarFn :: "Grammar \<Rightarrow> GrammarFn \<Rightarrow> Compiler \<Rightarrow> bool \<Rightarrow> error + Compiler" where
  "callGrammarFn rec f compiler allowAssignment =
     (case f of
        G_grouping \<Rightarrow> rec (Grouping compiler allowAssignment)
      | G_unaryOp \<Rightarrow> rec (UnaryOp compiler allowAssignment)
      | G_boolean \<Rightarrow> boolean compiler allowAssignment
      | G_function \<Rightarrow> rec (Function compiler allowAssignment)
      | G_name \<Rightarrow> rec (Name compiler allowAssignment)
      | G_null \<Rightarrow> null_fn compiler allowAssignment
      | G_number \<Rightarrow> number compiler allowAssignment
      | G_string \<Rightarrow> string_fn compiler allowAssignment
      | G_this \<Rightarrow> this_fn compiler allowAssignment
      | G_call \<Rightarrow> rec (CallFn compiler allowAssignment)
      | G_is \<Rightarrow> rec (Is compiler allowAssignment)
      | G_infixOp \<Rightarrow> rec (InfixOp compiler allowAssignment))"

text \<open>The \<open>while\<close> loop of \<open>parsePrecedence\<close>.\<close>

definition infixLoop :: "Grammar \<Rightarrow> Compiler \<Rightarrow> bool \<Rightarrow> nat \<Rightarrow> error + Compiler" where
  "infixLoop rec compiler allowAssignment precedence =
     (if precedence \<le> rule_precedence (rules (tok_type (current (parser compiler)))) then
        ebind (advance compiler) (\<lambda>compiler.
          case rule_infix (rules (tok_type (previous (parser compiler)))) of
            None \<Rightarrow> Inl NullCall
          | Some infx \<Rightarrow>
              ebind (callGrammarFn rec infx compiler allowAssignment) (\<lambda>compiler.
                rec (InfixLoop compiler allowAssignment precedence)))
      else Inr compiler)"

definition parsePrecedence :: "Grammar \<Rightarrow> Compiler \<Rightarrow> bool \<Rightarrow> nat \<Rightarrow> error + Compiler" where
  "parsePrecedence rec compiler allowAssignment precedence =
     ebind (advance compiler) (\<lambda>compiler.
       case rule_prefix (rules (tok_type (previous (parser compiler)))) of
         None \<Rightarrow> Inr (error compiler ''No prefix parser.'')
       | Some prefix \<Rightarrow>
           ebind (callGrammarFn rec prefix compiler allowAssignment) (\<lambda>compiler.
             rec (InfixLoop compiler allowAssignment precedence)))"

definition expression :: "Grammar \<Rightarrow> Compiler \<Rightarrow> bool \<Rightarrow> error + Compiler" where
  "expression rec compiler allowAssignment =
     rec (ParsePrecedence compiler allowAssignment PREC_LOWEST)"

definition assignment :: "Grammar \<Rightarrow> Compiler \<Rightarrow> error + Compiler" where
  "assignment rec compiler = expression rec compiler True"

definition grouping :: "Grammar \<Rightarrow> Compiler \<Rightarrow> bool \<Rightarrow> error + Compiler" where
  "grouping rec compiler allowAssignment =
     ebind (expression rec compiler False) (\<lambda>compiler.
       consume compiler TOKEN_RIGHT_PAREN ''Expect ')' after expression.'')"

text \<open>
  \<open>unaryOp\<close> passes \<open>ensureSymbol\<close> the name of the rule with the length 1: the first
  character of the name.
\<close>

definition unaryOp :: "Grammar \<Rightarrow> Compiler \<Rightarrow> bool \<Rightarrow> error + Compiler" where
  "unaryOp rec compiler allowAssignment =
     (let rule = rules (tok_type (previous (parser compiler))) in
      ebind (rec (ParsePrecedence compiler False (PREC_UNARY + 1))) (\<lambda>compiler.
        case rule_name rule of
          None \<Rightarrow> Inl NullCall
        | Some nm \<Rightarrow>
            (let (symbol, compiler) = ensureMethod compiler (take 1 nm) in
             ebind (emit compiler CODE_CALL_0) (\<lambda>compiler.
               emit compiler (ARG (of_int symbol))))))"

text \<open>
  The loop that \<open>function\<close>, \<open>statement\<close>, \<open>method\<close> and \<open>compile\<close> each have a copy
  of: definitions, separated by newlines, up to the closing token; the copies differ in
  the closing token and the message.
\<close>

definition block :: "Grammar \<Rightarrow> Compiler \<Rightarrow> TokenType \<Rightarrow> string \<Rightarrow> error + Compiler" where
  "block rec compiler closing message =
     ebind (rec (Definition compiler)) (\<lambda>compiler.
     ebind (match compiler TOKEN_LINE) (\<lambda>(m, compiler).
       if \<not> m then consume compiler closing message
       else
         ebind (match compiler closing) (\<lambda>(m, compiler).
           if m then Inr compiler
           else ebind (emit compiler CODE_POP) (\<lambda>compiler.
                  rec (Block compiler closing message)))))"

definition function_fn :: "Grammar \<Rightarrow> Compiler \<Rightarrow> bool \<Rightarrow> error + Compiler" where
  "function_fn rec compiler allowAssignment =
     (let fnCompiler = initCompiler (parser compiler) (childOf compiler) False in
      ebind (addConstant compiler (OBJ_VAL (fn fnCompiler))) (\<lambda>(constant, compiler).
        let fnCompiler = fnCompiler\<lparr>locals := fst (addSymbol (locals fnCompiler) ''(this)'')\<rparr> in
        ebind (parameterList fnCompiler None) (\<lambda>(fnCompiler, _).
        ebind (match fnCompiler TOKEN_LEFT_BRACE) (\<lambda>(m, fnCompiler).
        ebind (if m then rec (Block fnCompiler TOKEN_RIGHT_BRACE
                                ''Expect '}' after function body.'')
               else expression rec fnCompiler False) (\<lambda>fnCompiler.
        ebind (emit fnCompiler CODE_END) (\<lambda>fnCompiler.
          let compiler = setConstant (compiler\<lparr>parser := parser fnCompiler\<rparr>) constant
                           (OBJ_VAL (fn fnCompiler)) in
          ebind (emit compiler CODE_CONSTANT) (\<lambda>compiler.
            emit compiler (ARG (of_nat (length (constants (fn compiler)) - 1))))))))))"

definition name :: "Grammar \<Rightarrow> Compiler \<Rightarrow> bool \<Rightarrow> error + Compiler" where
  "name rec compiler allowAssignment =
     (let lex = lexeme (parser compiler) (previous (parser compiler));
          local = findSymbol (locals compiler) lex;
          global = (if local = -1 then findSymbol (globalSymbols (vm (parser compiler))) lex
                    else 0);
          compiler = (if local = -1 \<and> global = -1 then error compiler ''Undefined variable.''
                      else compiler) in
      ebind (match compiler TOKEN_EQ) (\<lambda>(m, compiler).
        if m then
          (let compiler = (if \<not> allowAssignment then error compiler ''Invalid assignment.''
                           else compiler) in
           ebind (rec (Statement compiler)) (\<lambda>compiler.
             if local \<noteq> -1 then
               ebind (emit compiler CODE_STORE_LOCAL) (\<lambda>compiler.
                 emit compiler (ARG (of_int local)))
             else
               ebind (emit compiler CODE_STORE_GLOBAL) (\<lambda>compiler.
                 emit compiler (ARG (of_int global)))))
        else if local \<noteq> -1 then
          ebind (emit compiler CODE_LOAD_LOCAL) (\<lambda>compiler.
            emit compiler (ARG (of_int local)))
        else
          ebind (emit compiler CODE_LOAD_GLOBAL) (\<lambda>compiler.
            emit compiler (ARG (of_int global)))))"

text \<open>
  The \<open>do ... while (match(compiler, TOKEN_COMMA))\<close> loop of \<open>call\<close>, which counts the
  arguments and adds a space to the name for each; \<open>k\<close> bounds its iterations.
\<close>

primrec callArguments ::
  "nat \<Rightarrow> Grammar \<Rightarrow> Compiler \<Rightarrow> string \<Rightarrow> nat \<Rightarrow> error + (Compiler \<times> string \<times> nat)" where
  "callArguments 0 rec compiler nm numArgs = Inl OutOfFuel"
| "callArguments (Suc k) rec compiler nm numArgs =
     ebind (rec (Statement compiler)) (\<lambda>compiler.
     ebind (addSpace nm) (\<lambda>nm.
     ebind (match compiler TOKEN_COMMA) (\<lambda>(m, compiler).
       if m then callArguments k rec compiler nm (numArgs + 1)
       else Inr (compiler, nm, numArgs + 1))))"

definition call :: "nat \<Rightarrow> Grammar \<Rightarrow> Compiler \<Rightarrow> bool \<Rightarrow> error + Compiler" where
  "call k rec compiler allowAssignment =
     ebind (consume compiler TOKEN_NAME ''Expect method name after '.'.'') (\<lambda>compiler.
     ebind (strncpy (drop (tok_start (previous (parser compiler))) (source (parser compiler)))
              (tok_end (previous (parser compiler)) - tok_start (previous (parser compiler))))
       (\<lambda>nm.
     ebind (match compiler TOKEN_LEFT_PAREN) (\<lambda>(m, compiler).
     ebind (if m then
              ebind (callArguments k rec compiler nm 0) (\<lambda>(compiler, nm, numArgs).
              ebind (consume compiler TOKEN_RIGHT_PAREN ''Expect ')' after arguments.'')
                (\<lambda>compiler. Inr (compiler, nm, numArgs)))
            else Inr (compiler, nm, 0)) (\<lambda>(compiler, nm, numArgs).
       let (symbol, compiler) = ensureMethod compiler nm in
       ebind (emit compiler (CODE_CALL numArgs)) (\<lambda>compiler.
         emit compiler (ARG (of_int symbol)))))))"

definition is_fn :: "Grammar \<Rightarrow> Compiler \<Rightarrow> bool \<Rightarrow> error + Compiler" where
  "is_fn rec compiler allowAssignment =
     ebind (rec (ParsePrecedence compiler False PREC_CALL)) (\<lambda>compiler.
       emit compiler CODE_IS)"

definition infixOp :: "Grammar \<Rightarrow> Compiler \<Rightarrow> bool \<Rightarrow> error + Compiler" where
  "infixOp rec compiler allowAssignment =
     (let rule = rules (tok_type (previous (parser compiler))) in
      ebind (rec (ParsePrecedence compiler False (rule_precedence rule + 1))) (\<lambda>compiler.
        case rule_name rule of
          None \<Rightarrow> Inl NullCall
        | Some nm \<Rightarrow>
            (let (symbol, compiler) = ensureMethod compiler nm in
             ebind (emit compiler CODE_CALL_1) (\<lambda>compiler.
               emit compiler (ARG (of_int symbol))))))"

definition statement :: "Grammar \<Rightarrow> Compiler \<Rightarrow> error + Compiler" where
  "statement rec compiler =
     ebind (match compiler TOKEN_IF) (\<lambda>(m, compiler).
       if m then
         ebind (consume compiler TOKEN_LEFT_PAREN ''Expect '(' after 'if'.'') (\<lambda>compiler.
         ebind (assignment rec compiler) (\<lambda>compiler.
         ebind (consume compiler TOKEN_RIGHT_PAREN ''Expect ')' after if condition.'') (\<lambda>compiler.
         ebind (emit compiler CODE_JUMP_IF) (\<lambda>compiler.
         ebind (emit compiler (ARG 255)) (\<lambda>compiler.
           let ifJump = numCodes compiler - 1 in
         ebind (rec (Statement compiler)) (\<lambda>compiler.
         ebind (emit compiler CODE_JUMP) (\<lambda>compiler.
         ebind (emit compiler (ARG 255)) (\<lambda>compiler.
           let elseJump = numCodes compiler - 1;
               compiler = patch compiler ifJump (numCodes compiler - ifJump - 1) in
         ebind (match compiler TOKEN_ELSE) (\<lambda>(m, compiler).
         ebind (if m then rec (Statement compiler) else emit compiler CODE_NULL) (\<lambda>compiler.
           Inr (patch compiler elseJump (numCodes compiler - elseJump - 1))))))))))))
       else
         ebind (match compiler TOKEN_LEFT_BRACE) (\<lambda>(m, compiler).
           if m then rec (Block compiler TOKEN_RIGHT_BRACE ''Expect '}' after block body.'')
           else assignment rec compiler))"

text \<open>
  \<open>method\<close> (here \<open>method_fn\<close>). \<open>compiler\<close> and \<open>methodCompiler\<close> share the parser: each
  takes it from the other where the code goes from one to the other.
\<close>

definition method_fn :: "Grammar \<Rightarrow> Compiler \<Rightarrow> bool \<Rightarrow> SignatureFn \<Rightarrow> error + Compiler" where
  "method_fn rec compiler isStatic signature =
     (let methodCompiler = initCompiler (parser compiler) (childOf compiler) True in
      ebind (addConstant compiler (OBJ_VAL (fn methodCompiler))) (\<lambda>(constant, compiler).
        let methodCompiler =
              methodCompiler\<lparr>locals := fst (addSymbol (locals methodCompiler) ''(this)'')\<rparr> in
        ebind (strncpy (drop (tok_start (previous (parser compiler))) (source (parser compiler)))
                 (tok_end (previous (parser compiler)) - tok_start (previous (parser compiler))))
          (\<lambda>nm.
        ebind (callSignatureFn signature methodCompiler nm) (\<lambda>(methodCompiler, nm).
          let (symbol, methodCompiler) = ensureMethod methodCompiler nm in
        ebind (consume (compiler\<lparr>parser := parser methodCompiler\<rparr>) TOKEN_LEFT_BRACE
                 ''Expect '{' to begin method body.'') (\<lambda>compiler.
        ebind (rec (Block (methodCompiler\<lparr>parser := parser compiler\<rparr>) TOKEN_RIGHT_BRACE
                 ''Expect '}' after method body.'')) (\<lambda>methodCompiler.
        ebind (emit methodCompiler CODE_END) (\<lambda>methodCompiler.
          let compiler = setConstant (compiler\<lparr>parser := parser methodCompiler\<rparr>) constant
                           (OBJ_VAL (fn methodCompiler)) in
        ebind (if isStatic then emit compiler CODE_METACLASS else Inr compiler) (\<lambda>compiler.
        ebind (emit compiler CODE_METHOD) (\<lambda>compiler.
        ebind (emit compiler (ARG (of_int symbol))) (\<lambda>compiler.
        ebind (emit compiler (ARG (of_nat constant))) (\<lambda>compiler.
          if isStatic then emit compiler CODE_POP else Inr compiler)))))))))))"

text \<open>The \<open>while (!match(compiler, TOKEN_RIGHT_BRACE))\<close> loop of \<open>definition\<close>.\<close>

definition classBody :: "Grammar \<Rightarrow> Compiler \<Rightarrow> error + Compiler" where
  "classBody rec compiler =
     ebind (match compiler TOKEN_RIGHT_BRACE) (\<lambda>(m, compiler).
       if m then Inr compiler
       else
         ebind (match compiler TOKEN_STATIC) (\<lambda>(isStatic, compiler).
           let signature = rule_method (rules (tok_type (current (parser compiler)))) in
           ebind (advance compiler) (\<lambda>compiler.
             case signature of
               None \<Rightarrow> Inr (error compiler ''Expect method definition.'')
             | Some signature \<Rightarrow>
                 ebind (rec (Method compiler isStatic signature)) (\<lambda>compiler.
                 ebind (consume compiler TOKEN_LINE
                          ''Expect newline after definition in class.'') (\<lambda>compiler.
                   rec (ClassBody compiler))))))"

definition definition_fn :: "Grammar \<Rightarrow> Compiler \<Rightarrow> error + Compiler" where
  "definition_fn rec compiler =
     ebind (match compiler TOKEN_CLASS) (\<lambda>(m, compiler).
       if m then
         ebind (declareVariable compiler) (\<lambda>(symbol, compiler).
         ebind (match compiler TOKEN_IS) (\<lambda>(m, compiler).
         ebind (if m then
                  ebind (rec (ParsePrecedence compiler False PREC_CALL)) (\<lambda>compiler.
                    emit compiler CODE_SUBCLASS)
                else emit compiler CODE_CLASS) (\<lambda>compiler.
         ebind (defineVariable compiler symbol) (\<lambda>compiler.
         ebind (consume compiler TOKEN_LEFT_BRACE ''Expect '}' after class body.'') (\<lambda>compiler.
           rec (ClassBody compiler))))))
       else
         ebind (match compiler TOKEN_VAR) (\<lambda>(m, compiler).
           if m then
             ebind (declareVariable compiler) (\<lambda>(symbol, compiler).
             ebind (consume compiler TOKEN_EQ ''Expect '=' after variable name.'') (\<lambda>compiler.
             ebind (rec (Statement compiler)) (\<lambda>compiler.
               defineVariable compiler symbol)))
           else rec (Statement compiler)))"

text \<open>
  The grammar with calls nested at most \<open>n\<close> deep: every call of a grammar function
  goes to the grammar one level below, and at level 0 the bound is reached.
\<close>

primrec grammar :: "nat \<Rightarrow> Call \<Rightarrow> error + Compiler" where
  "grammar 0 c = Inl OutOfFuel"
| "grammar (Suc n) c =
     (case c of
        ParsePrecedence compiler allowAssignment precedence \<Rightarrow>
          parsePrecedence (grammar n) compiler allowAssignment precedence
      | InfixLoop compiler allowAssignment precedence \<Rightarrow>
          infixLoop (grammar n) compiler allowAssignment precedence
      | Grouping compiler allowAssignment \<Rightarrow> grouping (grammar n) compiler allowAssignment
      | UnaryOp compiler allowAssignment \<Rightarrow> unaryOp (grammar n) compiler allowAssignment
      | Function compiler allowAssignment \<Rightarrow> function_fn (grammar n) compiler allowAssignment
      | Name compiler allowAssignment \<Rightarrow> name (grammar n) compiler allowAssignment
      | CallFn compiler allowAssignment \<Rightarrow> call n (grammar n) compiler allowAssignment
      | Is compiler allowAssignment \<Rightarrow> is_fn (grammar n) compiler allowAssignment
      | InfixOp compiler allowAssignment \<Rightarrow> infixOp (grammar n) compiler allowAssignment
      | Statement compiler \<Rightarrow> statement (grammar n) compiler
      | Block compiler closing message \<Rightarrow> block (grammar n) compiler closing message
      | Method compiler isStatic signature \<Rightarrow> method_fn (grammar n) compiler isStatic signature
      | Definition compiler \<Rightarrow> definition_fn (grammar n) compiler
      | ClassBody compiler \<Rightarrow> classBody (grammar n) compiler)"

subsection \<open>The entry point\<close>

text \<open>
  \<open>compile\<close> returns the function object, or NULL (\<open>None\<close>) when an error was reported.
  The model returns with it what the run leaves behind: the VM with its symbol tables,
  and the diagnostics written.
\<close>

record Compiled =
  result :: "ObjFn option"
  vm_after :: VM
  reported :: "diagnostic list"

text \<open>The initialisation of the parser at the head of \<open>compile\<close>.\<close>

definition initParser :: "VM \<Rightarrow> string \<Rightarrow> Parser" where
  "initParser v src =
     \<lparr>vm = v, source = src, tokenStart = 0, currentChar = 0, currentLine = 1,
      current = \<lparr>tok_type = TOKEN_EOF, tok_start = 0, tok_end = 0, tok_line = 0\<rparr>,
      previous = \<lparr>tok_type = TOKEN_EOF, tok_start = 0, tok_end = 0, tok_line = 0\<rparr>,
      skipNewlines = True, hasError = False, diagnostics = []\<rparr>"

text \<open>\<open>compile\<close> up to its last statement: the top-level frame when END has been emitted.\<close>

definition compileFrame :: "nat \<Rightarrow> VM \<Rightarrow> string \<Rightarrow> error + Compiler" where
  "compileFrame n v src =
     ebind (nextToken (initParser v src)) (\<lambda>p.
       let compiler = initCompiler p [] False in
       ebind (grammar n (Block compiler TOKEN_EOF ''Expect end of file.'')) (\<lambda>compiler.
         emit compiler CODE_END))"

definition compile :: "nat \<Rightarrow> VM \<Rightarrow> string \<Rightarrow> error + Compiled" where
  "compile n v src =
     ebind (compileFrame n v src) (\<lambda>compiler.
       Inr \<lparr>result = (if hasError (parser compiler) then None else Some (fn compiler)),
            vm_after = vm (parser compiler),
            reported = diagnostics (parser compiler)\<rparr>)"

text \<open>
  A VM for the runs on concrete sources: no global variable yet, the signatures of four
  operators in the methods table, function objects of 1024 codes and 256 constants.
\<close>

definition exampleVM :: VM where
  "exampleVM = \<lparr>globalSymbols = [], methods = [''+ '', ''- '', ''* '', ''/ ''],
                 maxCodes = 1024, maxConstants = 256\<rparr>"

section \<open>The bound on the depth of the calls\<close>

text \<open>
  A run of \<open>grammar\<close> that does not reach its bound has the same result with every
  larger bound.
\<close>

text \<open>
  \<open>uptoFuel r r'\<close>: the run with the smaller bound either reaches its bound or has the result
  of the run with the larger one.
\<close>

definition uptoFuel :: "error + 'a \<Rightarrow> error + 'a \<Rightarrow> bool" where
  "uptoFuel r r' \<longleftrightarrow> r = Inl OutOfFuel \<or> r = r'"

lemma upto_refl [simp, intro!]: "uptoFuel r r"
  by (simp add: uptoFuel_def)

lemma upto_ebind [intro!]:
  "uptoFuel m m' \<Longrightarrow> (\<And>x. m' = Inr x \<Longrightarrow> uptoFuel (f x) (f' x)) \<Longrightarrow> uptoFuel (ebind m f) (ebind m' f')"
  by (cases m'; cases m) (auto simp: uptoFuel_def)

lemma upto_if [intro!]:
  "(c \<Longrightarrow> uptoFuel a a') \<Longrightarrow> (\<not> c \<Longrightarrow> uptoFuel b b') \<Longrightarrow> uptoFuel (if c then a else b) (if c then a' else b')"
  by simp

lemma upto_case_prod [intro!]:
  "(\<And>a b. p = (a, b) \<Longrightarrow> uptoFuel (f a b) (f' a b)) \<Longrightarrow> uptoFuel (case_prod f p) (case_prod f' p)"
  by (cases p) simp

lemma upto_case_option [intro!]:
  "(opt = None \<Longrightarrow> uptoFuel a a') \<Longrightarrow> (\<And>x. opt = Some x \<Longrightarrow> uptoFuel (f x) (f' x)) \<Longrightarrow>
   uptoFuel (case_option a f opt) (case_option a' f' opt)"
  by (cases opt) simp_all

lemma upto_Let [intro!]: "uptoFuel (f x) (f' x) \<Longrightarrow> uptoFuel (Let x f) (Let x f')"
  by simp

definition below :: "Grammar \<Rightarrow> Grammar \<Rightarrow> bool" where
  "below rec rec' \<longleftrightarrow> (\<forall>c. uptoFuel (rec c) (rec' c))"

lemma belowD [intro]: "below rec rec' \<Longrightarrow> uptoFuel (rec c) (rec' c)"
  by (simp add: below_def)

lemma callGrammarFn_upto [intro]:
  "below rec rec' \<Longrightarrow> uptoFuel (callGrammarFn rec f c a) (callGrammarFn rec' f c a)"
  unfolding callGrammarFn_def by (cases f) auto

lemma infixLoop_upto:
  "below rec rec' \<Longrightarrow> uptoFuel (infixLoop rec c a p) (infixLoop rec' c a p)"
  unfolding infixLoop_def by blast

lemma parsePrecedence_upto:
  "below rec rec' \<Longrightarrow> uptoFuel (parsePrecedence rec c a p) (parsePrecedence rec' c a p)"
  unfolding parsePrecedence_def by blast

lemma expression_upto [intro]:
  "below rec rec' \<Longrightarrow> uptoFuel (expression rec c a) (expression rec' c a)"
  unfolding expression_def by blast

lemma assignment_upto [intro]:
  "below rec rec' \<Longrightarrow> uptoFuel (assignment rec c) (assignment rec' c)"
  unfolding assignment_def by blast

lemma grouping_upto:
  "below rec rec' \<Longrightarrow> uptoFuel (grouping rec c a) (grouping rec' c a)"
  unfolding grouping_def by blast

lemma unaryOp_upto:
  "below rec rec' \<Longrightarrow> uptoFuel (unaryOp rec c a) (unaryOp rec' c a)"
  unfolding unaryOp_def by blast

lemma block_upto:
  "below rec rec' \<Longrightarrow> uptoFuel (block rec c t m) (block rec' c t m)"
  unfolding block_def by blast

lemma function_fn_upto:
  "below rec rec' \<Longrightarrow> uptoFuel (function_fn rec c a) (function_fn rec' c a)"
  unfolding function_fn_def by blast

lemma name_upto:
  "below rec rec' \<Longrightarrow> uptoFuel (name rec c a) (name rec' c a)"
  unfolding name_def by blast

lemma callArguments_upto:
  "below rec rec' \<Longrightarrow> uptoFuel (callArguments k rec c nm na) (callArguments (Suc k) rec' c nm na)"
proof (induction k arbitrary: c nm na)
  case 0
  then show ?case by (simp add: uptoFuel_def)
next
  case (Suc k)
  show ?case
    apply (subst callArguments.simps(2)[of "Suc k"])
    apply (subst callArguments.simps(2)[of k])
    using Suc by blast
qed

lemma call_upto:
  "below rec rec' \<Longrightarrow> uptoFuel (call k rec c a) (call (Suc k) rec' c a)"
  unfolding call_def using callArguments_upto by blast

lemma is_fn_upto:
  "below rec rec' \<Longrightarrow> uptoFuel (is_fn rec c a) (is_fn rec' c a)"
  unfolding is_fn_def by blast

lemma infixOp_upto:
  "below rec rec' \<Longrightarrow> uptoFuel (infixOp rec c a) (infixOp rec' c a)"
  unfolding infixOp_def by blast

lemma statement_upto:
  "below rec rec' \<Longrightarrow> uptoFuel (statement rec c) (statement rec' c)"
  unfolding statement_def by blast

lemma method_fn_upto:
  "below rec rec' \<Longrightarrow> uptoFuel (method_fn rec c s g) (method_fn rec' c s g)"
  unfolding method_fn_def by blast

lemma classBody_upto:
  "below rec rec' \<Longrightarrow> uptoFuel (classBody rec c) (classBody rec' c)"
  unfolding classBody_def by blast

lemma definition_fn_upto:
  "below rec rec' \<Longrightarrow> uptoFuel (definition_fn rec c) (definition_fn rec' c)"
  unfolding definition_fn_def by blast

lemma grammar_below: "below (grammar n) (grammar (Suc n))"
proof (induction n)
  case 0
  show ?case by (simp add: below_def uptoFuel_def)
next
  case (Suc n)
  show ?case
    unfolding below_def
  proof
    fix c
    show "uptoFuel (grammar (Suc n) c) (grammar (Suc (Suc n)) c)"
      by (cases c)
         (simp_all only: grammar.simps Call.case parsePrecedence_upto[OF Suc]
            infixLoop_upto[OF Suc] grouping_upto[OF Suc] unaryOp_upto[OF Suc]
            function_fn_upto[OF Suc] name_upto[OF Suc] call_upto[OF Suc] is_fn_upto[OF Suc]
            infixOp_upto[OF Suc] statement_upto[OF Suc] block_upto[OF Suc]
            method_fn_upto[OF Suc] definition_fn_upto[OF Suc] classBody_upto[OF Suc])
  qed
qed

lemma grammar_mono: "n \<le> m \<Longrightarrow> uptoFuel (grammar n c) (grammar m c)"
proof (induction m)
  case 0
  then show ?case by simp
next
  case (Suc m)
  show ?case
  proof (cases "n = Suc m")
    case True
    then show ?thesis by simp
  next
    case False
    with Suc have "uptoFuel (grammar n c) (grammar m c)" by simp
    moreover have "uptoFuel (grammar m c) (grammar (Suc m) c)"
      using grammar_below by (simp only: below_def)
    ultimately show ?thesis by (auto simp: uptoFuel_def)
  qed
qed

lemma compile_mono: "n \<le> m \<Longrightarrow> uptoFuel (compile n v src) (compile m v src)"
  unfolding compile_def compileFrame_def using grammar_mono by blast

lemma compile_enough:
  assumes "compile n v src = Inr r" and "n \<le> k"
  shows "compile k v src = Inr r"
  using compile_mono[OF assms(2), of v src] assms(1) by (simp add: uptoFuel_def)

section \<open>The claims\<close>

subsection \<open>C10: a string literal that is not closed\<close>

lemma readStringLoop_no_quote:
  "CHR 0x22 \<notin> set (drop (currentChar p) (source p)) \<Longrightarrow> readStringLoop p = Inl OutOfBounds"
proof (induction p rule: readStringLoop.induct)
  case (1 parser)
  show ?case
  proof (cases "peekChar parser")
    case (Inl e)
    then have "e = OutOfBounds" by (auto simp: peekChar_def sourceAt_def split: if_splits)
    with Inl show ?thesis by (subst readStringLoop.simps) (simp add: nextChar_def)
  next
    case (Inr c)
    let ?q = "parser\<lparr>currentChar := currentChar parser + 1\<rparr>"
    have n: "nextChar parser = Inr (c, ?q)" using Inr by (simp add: nextChar_Inr)
    have c: "c \<noteq> CHR 0x22"
    proof (cases "currentChar parser < length (source parser)")
      case True
      then have "source parser ! currentChar parser \<in> set (drop (currentChar parser) (source parser))"
        by (metis Cons_nth_drop_Suc list.set_intros(1))
      with "1.prems" Inr True show ?thesis by (auto simp: peekChar_def sourceAt_def)
    next
      case False
      with Inr show ?thesis by (auto simp: peekChar_def sourceAt_def split: if_splits)
    qed
    have "CHR 0x22 \<notin> set (drop (currentChar ?q) (source ?q))"
      using "1.prems" set_drop_subset_set_drop[of "currentChar parser" "Suc (currentChar parser)" "source parser"]
      by auto
    from "1.IH"[OF n refl c this] n c show ?thesis
      by (subst readStringLoop.simps) simp
  qed
qed

lemma readRawToken_quote_no_close:
  assumes "CHR 0x22 \<notin> set s"
  shows "readRawToken (p\<lparr>source := CHR 0x22 # s, currentChar := 0\<rparr>) = Inl OutOfBounds"
proof -
  let ?p = "p\<lparr>source := CHR 0x22 # s, currentChar := 0\<rparr>"
  let ?q = "?p\<lparr>tokenStart := 0, currentChar := 1\<rparr>"
  have "readStringLoop ?q = Inl OutOfBounds"
    using assms by (intro readStringLoop_no_quote) simp
  then show ?thesis
    by (subst readRawToken.simps)
       (simp add: peekChar_def sourceAt_def nextChar_def Let_def readString_def)
qed

text \<open>
  C10. For some input, \<open>readString\<close> moves the cursor behind the zero terminator and
  reads the buffer out of bounds. It is so whenever no \<open>"\<close> stands at or behind the
  cursor, that is, when the \<open>"\<close> that opened the literal is the last one of the
  source; and \<open>compile\<close> reaches that read on every source that begins with its only
  \<open>"\<close>, whatever the VM and the bound.
\<close>

theorem C10_unterminated_string:
  "(CHR 0x22 \<notin> set (drop (currentChar p) (source p)) \<longrightarrow> readString p = Inl OutOfBounds)
   \<and> (CHR 0x22 \<notin> set s \<longrightarrow> compile n v (CHR 0x22 # s) = Inl OutOfBounds)"
proof (intro conjI impI)
  assume "CHR 0x22 \<notin> set (drop (currentChar p) (source p))"
  then show "readString p = Inl OutOfBounds"
    by (simp add: readString_def readStringLoop_no_quote)
next
  assume a: "CHR 0x22 \<notin> set s"
  have "initParser v (CHR 0x22 # s)\<lparr>previous := current (initParser v (CHR 0x22 # s))\<rparr>
      = (initParser v (CHR 0x22 # s))\<lparr>source := CHR 0x22 # s, currentChar := 0\<rparr>"
    by (simp add: initParser_def)
  with readRawToken_quote_no_close[OF a]
  have "nextToken (initParser v (CHR 0x22 # s)) = Inl OutOfBounds"
    by (subst nextToken_def, subst nextTokenLoop.simps) simp
  then show "compile n v (CHR 0x22 # s) = Inl OutOfBounds"
    by (simp add: compile_def compileFrame_def)
qed

theorem C10_unterminated_string_witness:
  "readString (initParser exampleVM ''abc'') = Inl OutOfBounds
   \<and> compile 20 exampleVM (CHR 0x22 # ''abc'') = Inl OutOfBounds"
proof -
  have 1: "CHR 0x22 \<notin> set (drop (currentChar (initParser exampleVM ''abc'')) (source (initParser exampleVM ''abc'')))"
    by (simp add: initParser_def)
  have 2: "CHR 0x22 \<notin> set ''abc''" by simp
  from C10_unterminated_string[of "initParser exampleVM ''abc''" "''abc''" 20 exampleVM] 1 2
  show ?thesis by blast
qed

subsection \<open>C7: a minus sign before a digit\<close>

lemma peekChar_defined: "currentChar p \<le> length (source p) \<Longrightarrow> \<exists>c. peekChar p = Inr c"
  by (auto simp: peekChar_def sourceAt_def)

lemma skipWhile_first:
  assumes "peekChar p = Inr c" and "P c" and "skipWhile P p = Inr p'"
  shows "currentChar p < currentChar p'"
proof -
  from assms have "skipWhile P (p\<lparr>currentChar := currentChar p + 1\<rparr>) = Inr p'"
    by (subst (asm) skipWhile.simps) (simp add: nextChar_def)
  from skipWhile_advances[OF this] show ?thesis by (simp add: advances_def)
qed

lemma skipWhile_defined:
  "currentChar p \<le> length (source p) \<Longrightarrow> \<not> P (CHR 0x00) \<Longrightarrow> \<exists>p'. skipWhile P p = Inr p'"
proof (induction P p rule: skipWhile.induct)
  case (1 P parser)
  obtain c where c: "peekChar parser = Inr c"
    using "1.prems" peekChar_defined by blast
  show ?case
  proof (cases "P c")
    case True
    with "1.prems" c have "c \<noteq> CHR 0x00" by auto
    from peekChar_nonzero[OF c this] have lt: "currentChar parser < length (source parser)" .
    let ?q = "parser\<lparr>currentChar := currentChar parser + 1\<rparr>"
    have n: "nextChar parser = Inr (c, ?q)" using c by (simp add: nextChar_Inr)
    from "1.IH"[OF c True n refl] lt "1.prems" obtain p' where "skipWhile P ?q = Inr p'" by auto
    with c True n show ?thesis by (subst skipWhile.simps) simp
  next
    case False
    with c show ?thesis by (subst skipWhile.simps) simp
  qed
qed

lemma isDigit_zero [simp]: "\<not> isDigit (CHR 0x00)"
  by (simp add: isDigit_def less_eq_char_def)

lemma readNumber_defined:
  assumes "currentChar p \<le> length (source p)"
  shows "\<exists>q. readNumber p = Inr (makeToken q TOKEN_NUMBER) \<and> advances p q
           \<and> (\<forall>c. peekChar p = Inr c \<and> isDigit c \<longrightarrow> currentChar p < currentChar q)"
proof -
  from skipWhile_defined[OF assms, of isDigit] obtain q1 where 1: "skipWhile isDigit p = Inr q1"
    by auto
  note a1 = skipWhile_advances[OF 1]
  then have le: "currentChar q1 \<le> length (source q1)" by (simp add: advances_def)
  then obtain c where c: "peekChar q1 = Inr c" using peekChar_defined by blast
  have first: "\<forall>c. peekChar p = Inr c \<and> isDigit c \<longrightarrow> currentChar p < currentChar q1"
    using skipWhile_first[OF _ _ 1] by blast
  from peekNextChar_defined[OF c] obtain d where d: "peekNextChar q1 = Inr d" ..
  show ?thesis
  proof (cases "c = CHR ''.'' \<and> isDigit d")
    case True
    let ?q = "q1\<lparr>currentChar := currentChar q1 + 1\<rparr>"
    from True c have "currentChar q1 < length (source q1)" by (auto dest: peekChar_nonzero)
    then obtain q2 where 2: "skipWhile isDigit ?q = Inr q2"
      using skipWhile_defined[of ?q isDigit] by auto
    have "advances q1 q2" by (rule advances_step[OF skipWhile_advances[OF 2]])
    with a1 have "advances p q2" by (rule advances_trans)
    moreover have "readNumber p = Inr (makeToken q2 TOKEN_NUMBER)"
      using 1 c d True 2 by (simp add: readNumber_def nextChar_def)
    moreover have "currentChar q1 \<le> currentChar q2"
      using \<open>advances q1 q2\<close> by (simp add: advances_def)
    ultimately show ?thesis using first by fastforce
  next
    case False
    with 1 c d have "readNumber p = Inr (makeToken q1 TOKEN_NUMBER)"
      by (auto simp: readNumber_def)
    with a1 first show ?thesis by blast
  qed
qed

text \<open>The raw tokens of a source, up to EOF.\<close>

function rawTokens :: "Parser \<Rightarrow> error + Token list" where
  "rawTokens p =
     ebind (readRawToken p) (\<lambda>p.
       if tok_type (current p) = TOKEN_EOF then Inr []
       else ebind (rawTokens p) (\<lambda>ts. Inr (current p # ts)))"
  by pat_completeness auto
termination
  by (relation "measure (\<lambda>p. length (source p) - currentChar p)")
     (auto dest!: readRawToken_lexed simp: lexed_def)

declare rawTokens.simps [simp del]

text \<open>
  C7. Where the lexer reads a \<open>-\<close>: if the next character is a digit, the token is one
  NUMBER that starts at the \<open>-\<close> and reaches behind the digit; if not, the token is
  MINUS, the \<open>-\<close> alone. So \<open>-1\<close> is one token, and \<open>a - 1\<close> is three.
\<close>

theorem C7_minus_before_digit:
  assumes "currentChar p < length (source p)" and "source p ! currentChar p = CHR ''-''"
  shows "(Suc (currentChar p) < length (source p) \<and> isDigit (source p ! Suc (currentChar p)) \<longrightarrow>
            (\<exists>p'. readRawToken p = Inr p' \<and> tok_type (current p') = TOKEN_NUMBER
               \<and> tok_start (current p') = currentChar p
               \<and> Suc (currentChar p) < tok_end (current p')))
       \<and> (\<not> (Suc (currentChar p) < length (source p) \<and> isDigit (source p ! Suc (currentChar p))) \<longrightarrow>
            (\<exists>p'. readRawToken p = Inr p'
               \<and> current p' = \<lparr>tok_type = TOKEN_MINUS, tok_start = currentChar p,
                    tok_end = Suc (currentChar p), tok_line = currentLine p\<rparr>))
       \<and> rawTokens (initParser v ''-1'') =
            Inr [\<lparr>tok_type = TOKEN_NUMBER, tok_start = 0, tok_end = 2, tok_line = 1\<rparr>]
       \<and> rawTokens (initParser v ''a - 1'') =
            Inr [\<lparr>tok_type = TOKEN_NAME, tok_start = 0, tok_end = 1, tok_line = 1\<rparr>,
                 \<lparr>tok_type = TOKEN_MINUS, tok_start = 2, tok_end = 3, tok_line = 1\<rparr>,
                 \<lparr>tok_type = TOKEN_NUMBER, tok_start = 4, tok_end = 5, tok_line = 1\<rparr>]"
proof (intro conjI impI)
  let ?q = "p\<lparr>tokenStart := currentChar p, currentChar := Suc (currentChar p)\<rparr>"
  have pk: "peekChar p = Inr (CHR ''-'')"
    using assms by (simp add: peekChar_def sourceAt_def)
  have unfold: "readRawToken p =
      ebind (peekChar ?q) (\<lambda>d. if isDigit d then readNumber ?q else Inr (makeToken ?q TOKEN_MINUS))"
    by (subst readRawToken.simps) (simp add: pk nextChar_def Let_def)
  {
    assume d: "Suc (currentChar p) < length (source p) \<and> isDigit (source p ! Suc (currentChar p))"
    then have pq: "peekChar ?q = Inr (source p ! Suc (currentChar p))"
      by (simp add: peekChar_def sourceAt_def)
    from d have "currentChar ?q \<le> length (source ?q)" by simp
    from readNumber_defined[OF this] pq d obtain r where r: "readNumber ?q = Inr (makeToken r TOKEN_NUMBER)"
      and adv: "advances ?q r" and lt: "currentChar ?q < currentChar r" by blast
    from d pq r have "readRawToken p = Inr (makeToken r TOKEN_NUMBER)"
      by (simp add: unfold)
    with adv lt
    show "\<exists>p'. readRawToken p = Inr p' \<and> tok_type (current p') = TOKEN_NUMBER
               \<and> tok_start (current p') = currentChar p
               \<and> Suc (currentChar p) < tok_end (current p')"
      by (simp add: makeToken_def advances_def)
  }
  {
    assume nd: "\<not> (Suc (currentChar p) < length (source p) \<and> isDigit (source p ! Suc (currentChar p)))"
    have "\<exists>d. peekChar ?q = Inr d \<and> \<not> isDigit d"
      using nd assms by (auto simp: peekChar_def sourceAt_def)
    then show "\<exists>p'. readRawToken p = Inr p'
               \<and> current p' = \<lparr>tok_type = TOKEN_MINUS, tok_start = currentChar p,
                    tok_end = Suc (currentChar p), tok_line = currentLine p\<rparr>"
      by (auto simp: unfold makeToken_def)
  }
  show "rawTokens (initParser v ''-1'') =
            Inr [\<lparr>tok_type = TOKEN_NUMBER, tok_start = 0, tok_end = 2, tok_line = 1\<rparr>]"
    by code_simp
  show "rawTokens (initParser v ''a - 1'') =
            Inr [\<lparr>tok_type = TOKEN_NAME, tok_start = 0, tok_end = 1, tok_line = 1\<rparr>,
                 \<lparr>tok_type = TOKEN_MINUS, tok_start = 2, tok_end = 3, tok_line = 1\<rparr>,
                 \<lparr>tok_type = TOKEN_NUMBER, tok_start = 4, tok_end = 5, tok_line = 1\<rparr>]"
    by code_simp
qed

theorem C7_minus_before_digit_witness:
  "(\<exists>p'. readRawToken (initParser exampleVM ''-1'') = Inr p'
        \<and> tok_type (current p') = TOKEN_NUMBER
        \<and> tok_start (current p') = currentChar (initParser exampleVM ''-1'')
        \<and> Suc (currentChar (initParser exampleVM ''-1'')) < tok_end (current p'))
   \<and> (\<exists>p'. readRawToken (initParser exampleVM ''-a'') = Inr p'
        \<and> current p' = \<lparr>tok_type = TOKEN_MINUS,
             tok_start = currentChar (initParser exampleVM ''-a''),
             tok_end = Suc (currentChar (initParser exampleVM ''-a'')),
             tok_line = currentLine (initParser exampleVM ''-a'')\<rparr>)"
proof
  let ?p = "initParser exampleVM ''-1''"
  have 1: "currentChar ?p < length (source ?p)" by (simp add: initParser_def)
  have 2: "source ?p ! currentChar ?p = CHR ''-''" by (simp add: initParser_def)
  have 3: "Suc (currentChar ?p) < length (source ?p) \<and> isDigit (source ?p ! Suc (currentChar ?p))"
    by (simp add: initParser_def isDigit_def less_eq_char_def)
  from C7_minus_before_digit[OF 1 2, of exampleVM] 3
  show "\<exists>p'. readRawToken ?p = Inr p' \<and> tok_type (current p') = TOKEN_NUMBER
        \<and> tok_start (current p') = currentChar ?p \<and> Suc (currentChar ?p) < tok_end (current p')"
    by blast
next
  let ?p = "initParser exampleVM ''-a''"
  have 1: "currentChar ?p < length (source ?p)" by (simp add: initParser_def)
  have 2: "source ?p ! currentChar ?p = CHR ''-''" by (simp add: initParser_def)
  have 3: "\<not> (Suc (currentChar ?p) < length (source ?p) \<and> isDigit (source ?p ! Suc (currentChar ?p)))"
    by (simp add: initParser_def isDigit_def less_eq_char_def)
  from C7_minus_before_digit[OF 1 2, of exampleVM] 3
  show "\<exists>p'. readRawToken ?p = Inr p' \<and> current p' = \<lparr>tok_type = TOKEN_MINUS,
             tok_start = currentChar ?p, tok_end = Suc (currentChar ?p),
             tok_line = currentLine ?p\<rparr>"
    by blast
qed

subsection \<open>C9: consume reads one token\<close>

lemma error_fields [simp]:
  "vm (parser (error c m)) = vm (parser c)"
  "source (parser (error c m)) = source (parser c)"
  "tokenStart (parser (error c m)) = tokenStart (parser c)"
  "currentChar (parser (error c m)) = currentChar (parser c)"
  "currentLine (parser (error c m)) = currentLine (parser c)"
  "current (parser (error c m)) = current (parser c)"
  "previous (parser (error c m)) = previous (parser c)"
  "skipNewlines (parser (error c m)) = skipNewlines (parser c)"
  "hasError (parser (error c m)) = True"
  "parents (error c m) = parents c"
  "fn (error c m) = fn c"
  "locals (error c m) = locals c"
  "isMethod (error c m) = isMethod c"
  by (simp_all add: error_def)

text \<open>
  C9. \<open>consume\<close> calls \<open>nextToken\<close> once, whatever token it expects: it fails only where
  \<open>nextToken\<close> does, and when it returns, the parser is the one \<open>nextToken\<close> returned,
  with the error reported on a mismatch and nothing else changed; the token that was the
  lookahead is now \<open>previous\<close>, also on a mismatch. What is left to read never grows, and
  it shrinks unless the lookahead was EOF (at the end of the source \<open>nextToken\<close> makes
  EOF tokens for ever).
\<close>

theorem C9_consume_one_token:
  "(\<forall>e. consume compiler expected message = Inl e \<longleftrightarrow> nextToken (parser compiler) = Inl e)
   \<and> (\<forall>c'. consume compiler expected message = Inr c' \<longrightarrow>
        (\<exists>p'. nextToken (parser compiler) = Inr p'
           \<and> c' = (if tok_type (current (parser compiler)) = expected
                   then compiler\<lparr>parser := p'\<rparr>
                   else error (compiler\<lparr>parser := p'\<rparr>) message)
           \<and> previous (parser c') = current (parser compiler)
           \<and> current (parser c') = current p'
           \<and> currentChar (parser c') = currentChar p'
           \<and> remaining (parser c') \<le> remaining (parser compiler)
           \<and> (tok_type (current (parser compiler)) \<noteq> TOKEN_EOF \<longrightarrow>
                remaining (parser c') < remaining (parser compiler))))"
proof (intro conjI allI impI)
  fix e
  show "consume compiler expected message = Inl e \<longleftrightarrow> nextToken (parser compiler) = Inl e"
    by (cases "nextToken (parser compiler)") (simp_all add: consume_def advance_def)
next
  fix c'
  assume a: "consume compiler expected message = Inr c'"
  then obtain p' where p': "nextToken (parser compiler) = Inr p'"
    by (auto simp: consume_def advance_def ebind_eq_Inr)
  from nextToken_scanned[OF p'] have prev: "previous p' = current (parser compiler)" by simp
  from a p' prev have c': "c' = (if tok_type (current (parser compiler)) = expected
                   then compiler\<lparr>parser := p'\<rparr>
                   else error (compiler\<lparr>parser := p'\<rparr>) message)"
    by (auto simp: consume_def advance_def)
  from c' prev nextToken_remaining[OF p']
  show "\<exists>p'. nextToken (parser compiler) = Inr p'
           \<and> c' = (if tok_type (current (parser compiler)) = expected
                   then compiler\<lparr>parser := p'\<rparr>
                   else error (compiler\<lparr>parser := p'\<rparr>) message)
           \<and> previous (parser c') = current (parser compiler)
           \<and> current (parser c') = current p'
           \<and> currentChar (parser c') = currentChar p'
           \<and> remaining (parser c') \<le> remaining (parser compiler)
           \<and> (tok_type (current (parser compiler)) \<noteq> TOKEN_EOF \<longrightarrow>
                remaining (parser c') < remaining (parser compiler))"
    using p' by (intro exI[of _ p']) auto
qed


text \<open>
  The top-level frame of a compilation in \<open>exampleVM\<close> after the first \<open>k\<close> tokens of
  the source were read: the concrete frames of the witnesses.
\<close>

definition afterTokens :: "nat \<Rightarrow> string \<Rightarrow> Compiler" where
  "afterTokens k src =
     initCompiler (projr (((\<lambda>r. ebind r nextToken) ^^ k) (Inr (initParser exampleVM src)))) [] False"

theorem C9_consume_one_token_witness:
  "previous (parser (projr (consume (afterTokens 1 ''1 2'') TOKEN_NAME ''Expected variable name.'')))
     = current (parser (afterTokens 1 ''1 2''))
   \<and> hasError (parser (projr (consume (afterTokens 1 ''1 2'') TOKEN_NAME ''Expected variable name.'')))
   \<and> remaining (parser (projr (consume (afterTokens 1 ''1 2'') TOKEN_NAME ''Expected variable name.'')))
       < remaining (parser (afterTokens 1 ''1 2''))"
proof -
  let ?c = "afterTokens 1 ''1 2''"
  let ?r = "projr (consume ?c TOKEN_NAME ''Expected variable name.'')"
  have r: "consume ?c TOKEN_NAME ''Expected variable name.'' = Inr ?r" by code_simp
  have t: "tok_type (current (parser ?c)) \<noteq> TOKEN_EOF" "tok_type (current (parser ?c)) \<noteq> TOKEN_NAME"
    by code_simp+
  from C9_consume_one_token[of ?c TOKEN_NAME "''Expected variable name.''"] r t
  show ?thesis by (auto split: if_splits)
qed

subsection \<open>C3: the method of a prefix minus\<close>

lemma findFrom_notin: "0 \<le> i \<Longrightarrow> findFrom xs nm i = -1 \<longleftrightarrow> nm \<notin> set xs"
  and findFrom_ge: "0 \<le> i \<Longrightarrow> nm \<in> set xs \<Longrightarrow> i \<le> findFrom xs nm i"
  by (induction xs nm i rule: findFrom.induct) auto

lemma findFrom_nth:
  "0 \<le> i \<Longrightarrow> nm \<in> set xs \<Longrightarrow>
     nat (findFrom xs nm i - i) < length xs \<and> xs ! nat (findFrom xs nm i - i) = nm"
proof (induction xs nm i rule: findFrom.induct)
  case (1 name i)
  then show ?case by simp
next
  case (2 x xs name i)
  show ?case
  proof (cases "x = name")
    case True
    then show ?thesis by simp
  next
    case False
    with 2 have "name \<in> set xs" by simp
    with 2 False have IH: "nat (findFrom xs name (i + 1) - (i + 1)) < length xs
        \<and> xs ! nat (findFrom xs name (i + 1) - (i + 1)) = name" by simp
    from findFrom_ge[of "i + 1" name xs] \<open>name \<in> set xs\<close> 2
    have "i + 1 \<le> findFrom xs name (i + 1)" by simp
    then have "nat (findFrom xs name (i + 1) - i) = Suc (nat (findFrom xs name (i + 1) - (i + 1)))"
      by simp
    with IH False show ?thesis by simp
  qed
qed

lemma findFrom_append: "nm \<notin> set xs \<Longrightarrow> findFrom (xs @ [nm]) nm i = i + int (length xs)"
  by (induction xs nm i rule: findFrom.induct) auto

lemma findSymbol_unique:
  assumes "findSymbol t a = findSymbol t b" and "findSymbol t a \<noteq> -1"
  shows "a = b"
proof -
  from assms findFrom_notin[of 0 t a] findFrom_notin[of 0 t b]
  have "a \<in> set t" "b \<in> set t" by (auto simp: findSymbol_def)
  then have na: "t ! nat (findFrom t a 0 - 0) = a" and nb: "t ! nat (findFrom t b 0 - 0) = b"
    using findFrom_nth[of 0 a t] findFrom_nth[of 0 b t] by simp_all
  have eq: "findFrom t a 0 = findFrom t b 0"
    using assms(1) by (simp only: findSymbol_def)
  have "a = t ! nat (findFrom t a 0 - 0)" by (rule na[symmetric])
  also have "\<dots> = t ! nat (findFrom t b 0 - 0)" by (rule arg_cong[OF eq])
  also have "\<dots> = b" by (rule nb)
  finally show ?thesis .
qed

lemma ensureSymbol_found:
  assumes "ensureSymbol t nm = (t', s)"
  shows "findSymbol t' nm = s" and "s \<noteq> -1"
  using assms findFrom_notin[of 0 t nm]
  by (auto simp: ensureSymbol_def addSymbol_def findSymbol_def findFrom_append split: if_splits)

text \<open>
  C3 (amended). For a prefix \<open>-\<close>, \<open>unaryOp\<close> compiles the operand at \<open>PREC_UNARY + 1\<close>
  and then emits CALL_0 with the symbol the methods table gives for the one-character
  name \<open>"-"\<close>: \<open>ensureSymbol\<close> is called with the rule's name \<open>"- "\<close> and the length 1.
  This is not the symbol of the two-character name \<open>"- "\<close>, which belongs to the infix
  minus (CALL_1).
\<close>

theorem C3_unary_minus_symbol:
  assumes "tok_type (previous (parser compiler)) = TOKEN_MINUS"
    and "grammar (Suc n) (UnaryOp compiler allowAssignment) = Inr c'"
  shows "\<exists>operand. grammar n (ParsePrecedence compiler False (PREC_UNARY + 1)) = Inr operand
           \<and> bytecode (fn c') = bytecode (fn operand) @
               [CODE_CALL_0, ARG (of_int (findSymbol (methods (vm (parser c'))) ''-''))]
           \<and> findSymbol (methods (vm (parser c'))) ''-'' \<noteq> -1
           \<and> findSymbol (methods (vm (parser c'))) ''-'' \<noteq> findSymbol (methods (vm (parser c'))) ''- ''"
proof -
  from assms obtain operand where
    op: "grammar n (ParsePrecedence compiler False (PREC_UNARY + 1)) = Inr operand"
    by (auto simp: unaryOp_def ebind_eq_Inr Let_def)
  obtain t s where e: "ensureSymbol (methods (vm (parser operand))) ''-'' = (t, s)"
    by (cases "ensureSymbol (methods (vm (parser operand))) ''-''")
  from assms op e have c': "ebind (emit (setMethods operand t) CODE_CALL_0)
      (\<lambda>compiler. emit compiler (ARG (of_int s))) = Inr c'"
    by (simp add: unaryOp_def OPERATOR_def ensureMethod_def)
  then have bc: "bytecode (fn c') = bytecode (fn operand) @ [CODE_CALL_0, ARG (of_int s)]"
    and vm: "methods (vm (parser c')) = t"
    by (auto simp: ebind_eq_Inr emit_def setMethods_def split: if_splits)
  from ensureSymbol_found[OF e] vm have s: "findSymbol (methods (vm (parser c'))) ''-'' = s" "s \<noteq> -1"
    by simp_all
  have "findSymbol (methods (vm (parser c'))) ''-'' \<noteq> findSymbol (methods (vm (parser c'))) ''- ''"
    using findSymbol_unique[of "methods (vm (parser c'))" "''-''" "''- ''"] s by auto
  with op bc s show ?thesis by auto
qed

theorem C3_unary_minus_symbol_witness:
  "bytecode (fn (projr (grammar 6 (UnaryOp (afterTokens 2 ''-a'') False)))) =
     bytecode (fn (projr (grammar 5 (ParsePrecedence (afterTokens 2 ''-a'') False (PREC_UNARY + 1))))) @
       [CODE_CALL_0, ARG (of_int (findSymbol
          (methods (vm (parser (projr (grammar 6 (UnaryOp (afterTokens 2 ''-a'') False)))))) ''-''))]"
proof -
  let ?c = "afterTokens 2 ''-a''"
  have 1: "tok_type (previous (parser ?c)) = TOKEN_MINUS" by code_simp
  have 2: "grammar (Suc 5) (UnaryOp ?c False) = Inr (projr (grammar 6 (UnaryOp ?c False)))"
    by code_simp
  from C3_unary_minus_symbol[OF 1 2] show ?thesis by auto
qed

text \<open>
  C3 as stated fails: in \<open>exampleVM\<close> the name \<open>"- "\<close> has the symbol 1, and the code of
  \<open>-a\<close> is CALL_0 with the operand 4, the symbol that \<open>"-"\<close> receives.
\<close>

theorem C3_counterexample:
  "compile 20 exampleVM ''var a = 1\<newline>-a'' =
     Inr \<lparr>result = Some \<lparr>bytecode =
              [CODE_CONSTANT, ARG 0, CODE_STORE_GLOBAL, ARG 0, CODE_POP,
               CODE_LOAD_GLOBAL, ARG 0, CODE_CALL_0, ARG 4, CODE_END],
            constants = [NUM_VAL 1]\<rparr>,
          vm_after = \<lparr>globalSymbols = [''a''], methods = [''+ '', ''- '', ''* '', ''/ '', ''-''],
                       maxCodes = 1024, maxConstants = 256\<rparr>,
          reported = []\<rparr>
   \<and> findSymbol [''+ '', ''- '', ''* '', ''/ '', ''-''] ''- '' = 1
   \<and> findSymbol [''+ '', ''- '', ''* '', ''/ '', ''-''] ''-'' = 4"
  by code_simp

subsection \<open>C6: the newline filter\<close>

text \<open>The types of the next \<open>k\<close> tokens \<open>nextToken\<close> emits.\<close>

primrec nextTokens :: "nat \<Rightarrow> Parser \<Rightarrow> error + TokenType list" where
  "nextTokens 0 p = Inr []"
| "nextTokens (Suc k) p =
     ebind (nextToken p) (\<lambda>p.
     ebind (nextTokens k p) (\<lambda>ts. Inr (tok_type (current p) # ts)))"

text \<open>
  C6. The claim holds for the token types in the list of \<open>nextToken\<close>, and fails for the
  keyword \<open>fn\<close>, which must be followed by the rest of the function and is not in the
  list: the newline behind \<open>fn\<close> is emitted as a LINE token (behind \<open>if\<close>, it is
  discarded), and \<open>fn\<close> with its body on the next line does not compile, where
  \<open>fn 1\<close> does.
\<close>

theorem C6_newline_after_fn:
  "nextTokens 3 (initParser exampleVM ''fn\<newline>1'') = Inr [TOKEN_FN, TOKEN_LINE, TOKEN_NUMBER]
   \<and> nextTokens 3 (initParser exampleVM ''if\<newline>1'') = Inr [TOKEN_IF, TOKEN_NUMBER, TOKEN_EOF]
   \<and> map_sum id reported (compile 20 exampleVM ''fn\<newline>1'') =
       Inr [(2, ''\<newline>'', ''No prefix parser.''), (2, ''1'', ''Expect end of file.'')]
   \<and> map_sum id reported (compile 20 exampleVM ''fn 1'') = Inr []"
  by code_simp

subsection \<open>C2: a source of spaces and newlines\<close>

text \<open>A source of space and newline characters only.\<close>

definition blank :: "string \<Rightarrow> bool" where
  "blank s \<longleftrightarrow> set s \<subseteq> {CHR '' '', CHR 0x0A}"

lemma blank_drop: "blank (drop i s) \<Longrightarrow> i \<le> j \<Longrightarrow> blank (drop j s)"
  using set_drop_subset_set_drop[of i j s] by (auto simp: blank_def)

lemma blank_peek:
  assumes "blank (drop (currentChar p) (source p))" and "currentChar p \<le> length (source p)"
  shows "peekChar p = Inr (CHR 0x00) \<and> currentChar p = length (source p)
       \<or> peekChar p = Inr (CHR '' '') \<and> currentChar p < length (source p)
       \<or> peekChar p = Inr (CHR 0x0A) \<and> currentChar p < length (source p)"
proof (cases "currentChar p < length (source p)")
  case True
  then have "source p ! currentChar p \<in> set (drop (currentChar p) (source p))"
    by (metis Cons_nth_drop_Suc list.set_intros(1))
  with assms True show ?thesis by (auto simp: blank_def peekChar_def sourceAt_def)
next
  case False
  with assms show ?thesis by (simp add: peekChar_def sourceAt_def)
qed

lemma readRawToken_eof:
  assumes "peekChar p = Inr (CHR 0x00)"
  shows "readRawToken p = Inr (makeToken (p\<lparr>tokenStart := currentChar p\<rparr>) TOKEN_EOF)"
  using assms by (subst readRawToken.simps) simp

lemma nextTokenLoop_eof:
  assumes "peekChar p = Inr (CHR 0x00)"
  shows "nextTokenLoop p =
     Inr ((makeToken (p\<lparr>tokenStart := currentChar p\<rparr>) TOKEN_EOF)\<lparr>skipNewlines := False\<rparr>)"
  by (subst nextTokenLoop.simps) (simp add: readRawToken_eof[OF assms] makeToken_def)

lemma readRawToken_blank:
  assumes "blank (drop (currentChar p) (source p))" and "currentChar p \<le> length (source p)"
  shows "\<exists>p'. readRawToken p = Inr p'
           \<and> (tok_type (current p') = TOKEN_LINE
                \<or> tok_type (current p') = TOKEN_EOF \<and> peekChar p' = Inr (CHR 0x00)
                    \<and> tok_start (current p') = tok_end (current p'))"
  using assms
proof (induction p rule: readRawToken.induct)
  case (1 parser)
  let ?q = "parser\<lparr>tokenStart := currentChar parser\<rparr>"
  let ?r = "parser\<lparr>tokenStart := currentChar parser, currentChar := Suc (currentChar parser)\<rparr>"
  from blank_peek[OF "1.prems"] consider
      (eof) "peekChar parser = Inr (CHR 0x00)"
    | (space) "peekChar parser = Inr (CHR '' '')" "currentChar parser < length (source parser)"
    | (line) "peekChar parser = Inr (CHR 0x0A)" "currentChar parser < length (source parser)"
    by blast
  then show ?case
  proof cases
    case eof
    then show ?thesis by (simp add: readRawToken_eof makeToken_def)
  next
    case line
    then show ?thesis
      by (subst readRawToken.simps) (simp add: nextChar_def Let_def makeToken_def)
  next
    case space
    have n: "nextChar ?q = Inr (CHR '' '', ?r)" using space by (simp add: nextChar_def)
    have "currentChar ?r \<le> length (source ?r)" using space by simp
    from skipWhile_defined[OF this, of "\<lambda>c. c = CHR '' ''"]
    obtain x where x: "skipWhitespace ?r = Inr x" by (auto simp: skipWhitespace_def)
    from skipWhitespace_advances[OF x]
    have ax: "source x = source parser" "currentChar parser \<le> currentChar x"
      "currentChar x \<le> length (source x)"
      by (simp_all add: advances_def)
    with "1.prems"(1) have bx: "blank (drop (currentChar x) (source x))"
      using blank_drop by simp
    have eq: "readRawToken parser = readRawToken x"
      using space x by (subst readRawToken.simps) (simp add: nextChar_def Let_def)
    have "\<exists>p'. readRawToken x = Inr p'
           \<and> (tok_type (current p') = TOKEN_LINE
                \<or> tok_type (current p') = TOKEN_EOF \<and> peekChar p' = Inr (CHR 0x00)
                    \<and> tok_start (current p') = tok_end (current p'))"
      by (rule "1.IH"(3)[OF space(1) _ refl n refl]) (use x bx ax in simp_all)
    then show ?thesis unfolding eq .
  qed
qed

lemma nextTokenLoop_blank:
  assumes "blank (drop (currentChar p) (source p))" and "currentChar p \<le> length (source p)"
    and "skipNewlines p"
  shows "\<exists>p'. nextTokenLoop p = Inr p' \<and> tok_type (current p') = TOKEN_EOF
           \<and> peekChar p' = Inr (CHR 0x00) \<and> tok_start (current p') = tok_end (current p')"
  using assms
proof (induction p rule: nextTokenLoop.induct)
  case (1 parser)
  from readRawToken_blank[OF "1.prems"(1,2)] obtain q where q: "readRawToken parser = Inr q"
    and t: "tok_type (current q) = TOKEN_LINE
          \<or> tok_type (current q) = TOKEN_EOF \<and> peekChar q = Inr (CHR 0x00)
              \<and> tok_start (current q) = tok_end (current q)"
    by blast
  from readRawToken_lexed[OF q] "1.prems"
  have lq: "source q = source parser" "currentChar parser \<le> currentChar q"
    "currentChar q \<le> length (source q)" "skipNewlines q"
    by (simp_all add: lexed_def)
  from t show ?case
  proof
    assume l: "tok_type (current q) = TOKEN_LINE"
    have bq: "blank (drop (currentChar q) (source q))"
      using "1.prems"(1) lq blank_drop by simp
    have eq: "nextTokenLoop parser = nextTokenLoop q"
      using q l lq by (subst nextTokenLoop.simps) (simp add: Let_def)
    have "\<exists>p'. nextTokenLoop q = Inr p' \<and> tok_type (current p') = TOKEN_EOF
           \<and> peekChar p' = Inr (CHR 0x00) \<and> tok_start (current p') = tok_end (current p')"
      by (rule "1.IH"[OF q refl]) (use l lq bq in simp_all)
    then show ?thesis unfolding eq .
  next
    assume e: "tok_type (current q) = TOKEN_EOF \<and> peekChar q = Inr (CHR 0x00)
              \<and> tok_start (current q) = tok_end (current q)"
    then have "nextTokenLoop parser = Inr (q\<lparr>skipNewlines := False\<rparr>)"
      using q by (subst nextTokenLoop.simps) (simp add: Let_def)
    with e show ?thesis by simp
  qed
qed

lemma nextToken_eof:
  assumes "peekChar p = Inr (CHR 0x00)"
  shows "nextToken p =
     Inr ((makeToken (p\<lparr>previous := current p, tokenStart := currentChar p\<rparr>) TOKEN_EOF)
            \<lparr>skipNewlines := False\<rparr>)"
  using nextTokenLoop_eof[of "p\<lparr>previous := current p\<rparr>"] assms
  by (simp add: nextToken_def)

text \<open>The parser after \<open>nextToken\<close> at the end of the source.\<close>

definition atEof :: "Parser \<Rightarrow> Parser" where
  "atEof p = (makeToken (p\<lparr>previous := current p, tokenStart := currentChar p\<rparr>) TOKEN_EOF)
               \<lparr>skipNewlines := False\<rparr>"

lemma atEof_fields [simp]:
  "tok_type (current (atEof p)) = TOKEN_EOF"
  "peekChar (atEof p) = peekChar p"
  "previous (atEof p) = current p"
  "vm (atEof p) = vm p" "source (atEof p) = source p"
  "hasError (atEof p) = hasError p" "diagnostics (atEof p) = diagnostics p"
  by (simp_all add: atEof_def makeToken_def peekChar_def sourceAt_def)

lemma peekChar_cong:
  "source p' = source p \<Longrightarrow> currentChar p' = currentChar p \<Longrightarrow> peekChar p' = peekChar p"
  by (simp add: peekChar_def sourceAt_def)

lemma definition_at_eof:
  assumes "peekChar (parser c) = Inr (CHR 0x00)" and "tok_type (current (parser c)) = TOKEN_EOF"
  shows "grammar (Suc (Suc (Suc n))) (Definition c)
           = Inr (error (c\<lparr>parser := atEof (parser c)\<rparr>) ''No prefix parser.'')"
  using assms nextToken_eof[OF assms(1)]
  by (simp add: definition_fn_def statement_def assignment_def expression_def
      parsePrecedence_def match_def peek_def advance_def UNUSED_def atEof_def makeToken_def)

lemma block_at_eof:
  assumes "peekChar (parser c) = Inr (CHR 0x00)" and "tok_type (current (parser c)) = TOKEN_EOF"
  shows "grammar (Suc (Suc (Suc (Suc n)))) (Block c TOKEN_EOF m)
           = Inr ((error (c\<lparr>parser := atEof (parser c)\<rparr>) ''No prefix parser.'')
                    \<lparr>parser := atEof (parser (error (c\<lparr>parser := atEof (parser c)\<rparr>) ''No prefix parser.''))\<rparr>)"
proof -
  let ?d = "error (c\<lparr>parser := atEof (parser c)\<rparr>) ''No prefix parser.''"
  have pk: "peekChar (parser ?d) = Inr (CHR 0x00)"
    using assms(1) peekChar_cong[of "parser ?d" "parser c"]
    by (simp add: atEof_def makeToken_def)
  have "grammar (Suc (Suc (Suc (Suc n)))) (Block c TOKEN_EOF m)
      = block (grammar (Suc (Suc (Suc n)))) c TOKEN_EOF m" by simp
  also have "\<dots> = Inr (?d\<lparr>parser := atEof (parser ?d)\<rparr>)"
    unfolding block_def definition_at_eof[OF assms]
    using nextToken_eof[OF pk]
    by (simp add: match_def peek_def consume_def advance_def atEof_def makeToken_def)
  finally show ?thesis .
qed

text \<open>
  C2 (amended). A source of space and newline characters only, the empty source among
  them, does not compile: the first token is EOF, \<open>definition\<close> reaches
  \<open>parsePrecedence\<close>, which finds no prefix parser for EOF and reports the error, and
  \<open>compile\<close> returns the failure sentinel. The function it built and gives up holds
  the single instruction END.
\<close>

theorem C2_blank_source:
  assumes "blank src" and "0 < maxCodes v"
  shows "\<exists>line c. compileFrame (Suc (Suc (Suc (Suc n)))) v src = Inr c
           \<and> fn c = \<lparr>bytecode = [CODE_END], constants = []\<rparr>
           \<and> compile (Suc (Suc (Suc (Suc n)))) v src =
               Inr \<lparr>result = None, vm_after = v,
                    reported = [(line, [], ''No prefix parser.'')]\<rparr>"
proof -
  let ?p0 = "(initParser v src)\<lparr>previous := current (initParser v src)\<rparr>"
  have "blank (drop (currentChar ?p0) (source ?p0))" "currentChar ?p0 \<le> length (source ?p0)"
    "skipNewlines ?p0"
    using assms(1) by (simp_all add: initParser_def)
  from nextTokenLoop_blank[OF this] obtain p1 where p1: "nextToken (initParser v src) = Inr p1"
    and e: "tok_type (current p1) = TOKEN_EOF" "peekChar p1 = Inr (CHR 0x00)"
      "tok_start (current p1) = tok_end (current p1)"
    by (auto simp: nextToken_def)
  from nextToken_scanned[OF p1]
  have f: "vm p1 = v" "hasError p1 = False" "diagnostics p1 = []"
    by (simp_all add: scanned_def initParser_def)
  let ?c = "initCompiler p1 [] False"
  have c: "peekChar (parser ?c) = Inr (CHR 0x00)" "tok_type (current (parser ?c)) = TOKEN_EOF"
    using e by (simp_all add: initCompiler_def)
  let ?r = "(error (?c\<lparr>parser := atEof (parser ?c)\<rparr>) ''No prefix parser.'')
                    \<lparr>parser := atEof (parser (error (?c\<lparr>parser := atEof (parser ?c)\<rparr>) ''No prefix parser.''))\<rparr>"
  have fr: "compileFrame (Suc (Suc (Suc (Suc n)))) v src = emit ?r CODE_END"
    unfolding compileFrame_def p1 by (simp add: block_at_eof[OF c] del: grammar.simps)
  have em: "emit ?r CODE_END = Inr (?r\<lparr>fn := \<lparr>bytecode = [CODE_END], constants = []\<rparr>\<rparr>)"
    using assms(2) f
    by (simp add: emit_def numCodes_def initCompiler_def newFunction_def error_def)
  let ?f = "?r\<lparr>fn := \<lparr>bytecode = [CODE_END], constants = []\<rparr>\<rparr>"
  have frame: "compileFrame (Suc (Suc (Suc (Suc n)))) v src = Inr ?f"
    by (simp only: fr em)
  have res: "hasError (parser ?f)" "vm (parser ?f) = v"
    "diagnostics (parser ?f) = [(tok_line (current p1), [], ''No prefix parser.'')]"
    using e f by (simp_all add: error_def initCompiler_def lexeme_def)
  have "compile (Suc (Suc (Suc (Suc n)))) v src =
      Inr \<lparr>result = None, vm_after = v,
           reported = [(tok_line (current p1), [], ''No prefix parser.'')]\<rparr>"
    unfolding compile_def frame ebind_Inr using res by (simp only: if_True)
  moreover have "fn ?f = \<lparr>bytecode = [CODE_END], constants = []\<rparr>" by simp
  ultimately show ?thesis using frame by blast
qed

theorem C2_blank_source_witness:
  "\<exists>line c. compileFrame (Suc (Suc (Suc (Suc 0)))) exampleVM '' \<newline>  \<newline>'' = Inr c
     \<and> fn c = \<lparr>bytecode = [CODE_END], constants = []\<rparr>
     \<and> compile (Suc (Suc (Suc (Suc 0)))) exampleVM '' \<newline>  \<newline>'' =
         Inr \<lparr>result = None, vm_after = exampleVM,
              reported = [(line, [], ''No prefix parser.'')]\<rparr>"
proof -
  have 1: "blank '' \<newline>  \<newline>''" by (simp add: blank_def)
  have 2: "0 < maxCodes exampleVM" by (simp add: exampleVM_def)
  from C2_blank_source[OF 1 2] show ?thesis .
qed

text \<open>
  C2 as stated fails: the empty source does not compile, \<open>compile\<close> reports
  "No prefix parser." on line 1 and returns the failure sentinel.
\<close>

theorem C2_counterexample:
  "compile 20 exampleVM [] =
     Inr \<lparr>result = None, vm_after = exampleVM, reported = [(1, [], ''No prefix parser.'')]\<rparr>"
  by code_simp


subsection \<open>C5: infix operators\<close>

text \<open>
  The runs below are evaluated in a VM whose tables are not known: \<open>ensureSymbol\<close> is
  kept unevaluated there, and \<open>ensureMethod\<close> is read through its two projections.
\<close>

lemma ensureMethod_opaque [code]:
  "ensureMethod compiler nm =
     (snd (ensureSymbol (methods (vm (parser compiler))) nm),
      setMethods compiler (fst (ensureSymbol (methods (vm (parser compiler))) nm)))"
  by (simp add: ensureMethod_def split: prod.splits)

declare ensureSymbol_def [code del]

lemma compile_plus_times:
  "compile 20 \<lparr>globalSymbols = g, methods = m, maxCodes = 11 + a, maxConstants = 3 + b\<rparr> ''1 + 2 * 3'' =
    Inr \<lparr>result = Some \<lparr>bytecode = [CODE_CONSTANT, ARG 0, CODE_CONSTANT, ARG 1, CODE_CONSTANT, ARG 2,
         CODE_CALL_1, ARG (of_int (snd (ensureSymbol m ''* ''))),
         CODE_CALL_1, ARG (of_int (snd (ensureSymbol (fst (ensureSymbol m ''* '')) ''+ ''))), CODE_END],
       constants = [NUM_VAL 1, NUM_VAL 2, NUM_VAL 3]\<rparr>,
      vm_after = \<lparr>globalSymbols = g, methods = fst (ensureSymbol (fst (ensureSymbol m ''* '')) ''+ ''),
         maxCodes = 11 + a, maxConstants = 3 + b\<rparr>,
      reported = []\<rparr>"
  by code_simp

lemma compile_minus_minus:
  "compile 20 \<lparr>globalSymbols = g, methods = m, maxCodes = 11 + a, maxConstants = 3 + b\<rparr> ''1 - 2 - 3'' =
    Inr \<lparr>result = Some \<lparr>bytecode = [CODE_CONSTANT, ARG 0, CODE_CONSTANT, ARG 1,
         CODE_CALL_1, ARG (of_int (snd (ensureSymbol m ''- ''))), CODE_CONSTANT, ARG 2,
         CODE_CALL_1, ARG (of_int (snd (ensureSymbol (fst (ensureSymbol m ''- '')) ''- ''))), CODE_END],
       constants = [NUM_VAL 1, NUM_VAL 2, NUM_VAL 3]\<rparr>,
      vm_after = \<lparr>globalSymbols = g, methods = fst (ensureSymbol (fst (ensureSymbol m ''- '')) ''- ''),
         maxCodes = 11 + a, maxConstants = 3 + b\<rparr>,
      reported = []\<rparr>"
  by code_simp

lemma compile_times_plus:
  "compile 20 \<lparr>globalSymbols = g, methods = m, maxCodes = 11 + a, maxConstants = 3 + b\<rparr> ''1 * 2 + 3'' =
    Inr \<lparr>result = Some \<lparr>bytecode = [CODE_CONSTANT, ARG 0, CODE_CONSTANT, ARG 1,
         CODE_CALL_1, ARG (of_int (snd (ensureSymbol m ''* ''))), CODE_CONSTANT, ARG 2,
         CODE_CALL_1, ARG (of_int (snd (ensureSymbol (fst (ensureSymbol m ''* '')) ''+ ''))), CODE_END],
       constants = [NUM_VAL 1, NUM_VAL 2, NUM_VAL 3]\<rparr>,
      vm_after = \<lparr>globalSymbols = g, methods = fst (ensureSymbol (fst (ensureSymbol m ''* '')) ''+ ''),
         maxCodes = 11 + a, maxConstants = 3 + b\<rparr>,
      reported = []\<rparr>"
  by code_simp

declare ensureSymbol_def [code]


lemma findFrom_append_in: "nm \<in> set xs \<Longrightarrow> findFrom (xs @ ys) nm i = findFrom xs nm i"
  by (induction xs nm i rule: findFrom.induct) auto

lemma ensureSymbol_keeps:
  assumes "findSymbol t a \<noteq> -1"
  shows "findSymbol (fst (ensureSymbol t b)) a = findSymbol t a"
proof -
  from assms findFrom_notin[of 0 t a] have "a \<in> set t" by (auto simp: findSymbol_def)
  then show ?thesis
    by (simp add: ensureSymbol_def addSymbol_def findSymbol_def findFrom_append_in)
qed

lemma ensureSymbol_snd:
  "findSymbol (fst (ensureSymbol t nm)) nm = snd (ensureSymbol t nm)"
  "snd (ensureSymbol t nm) \<noteq> -1"
  using ensureSymbol_found[of t nm "fst (ensureSymbol t nm)" "snd (ensureSymbol t nm)"]
  by simp_all

lemma VM_literal:
  assumes "c \<le> maxCodes v" and "k \<le> maxConstants v"
  shows "v = \<lparr>globalSymbols = globalSymbols v, methods = methods v,
               maxCodes = c + (maxCodes v - c), maxConstants = k + (maxConstants v - k)\<rparr>"
  using assms by simp

lemma infixOp_operand:
  assumes "grammar (Suc n) (InfixOp compiler a) = Inr c'"
  shows "\<exists>operand nm.
           rule_name (rules (tok_type (previous (parser compiler)))) = Some nm
         \<and> grammar n (ParsePrecedence compiler False
               (rule_precedence (rules (tok_type (previous (parser compiler)))) + 1)) = Inr operand
         \<and> bytecode (fn c') = bytecode (fn operand) @
               [CODE_CALL_1, ARG (of_int (findSymbol (methods (vm (parser c'))) nm))]
         \<and> findSymbol (methods (vm (parser c'))) nm \<noteq> -1"
proof -
  let ?rule = "rules (tok_type (previous (parser compiler)))"
  from assms obtain operand where
    op: "grammar n (ParsePrecedence compiler False (rule_precedence ?rule + 1)) = Inr operand"
    by (auto simp: infixOp_def ebind_eq_Inr Let_def)
  from assms op obtain nm where nm: "rule_name ?rule = Some nm"
    by (cases "rule_name ?rule") (auto simp: infixOp_def Let_def)
  let ?t = "fst (ensureSymbol (methods (vm (parser operand))) nm)"
  let ?s = "snd (ensureSymbol (methods (vm (parser operand))) nm)"
  from assms op nm have c': "ebind (emit (setMethods operand ?t) CODE_CALL_1)
      (\<lambda>compiler. emit compiler (ARG (of_int ?s))) = Inr c'"
    by (simp add: infixOp_def Let_def ensureMethod_def split: prod.splits)
  then have bc: "bytecode (fn c') = bytecode (fn operand) @ [CODE_CALL_1, ARG (of_int ?s)]"
    and vm: "methods (vm (parser c')) = ?t"
    by (auto simp: ebind_eq_Inr emit_def setMethods_def split: if_splits)
  from ensureSymbol_snd[of "methods (vm (parser operand))" nm] vm
  have "findSymbol (methods (vm (parser c'))) nm = ?s" "?s \<noteq> -1" by simp_all
  with op nm bc show ?thesis by auto
qed

lemma infixLoop_stops:
  assumes "rule_precedence (rules (tok_type (current (parser compiler)))) < precedence"
  shows "grammar (Suc n) (InfixLoop compiler a precedence) = Inr compiler"
  using assms by (simp add: infixLoop_def)


lemma compile_plus_times_any:
  assumes "11 \<le> maxCodes v" and "3 \<le> maxConstants v" and "20 \<le> k"
  shows "\<exists>r. compile k v ''1 + 2 * 3'' = Inr r \<and> reported r = []
           \<and> result r = Some \<lparr>bytecode =
                [CODE_CONSTANT, ARG 0, CODE_CONSTANT, ARG 1, CODE_CONSTANT, ARG 2,
                 CODE_CALL_1, ARG (of_int (findSymbol (methods (vm_after r)) ''* '')),
                 CODE_CALL_1, ARG (of_int (findSymbol (methods (vm_after r)) ''+ '')),
                 CODE_END],
               constants = [NUM_VAL 1, NUM_VAL 2, NUM_VAL 3]\<rparr>
           \<and> findSymbol (methods (vm_after r)) ''* '' \<noteq> -1
           \<and> findSymbol (methods (vm_after r)) ''+ '' \<noteq> -1"
proof -
  let ?m1 = "fst (ensureSymbol (methods v) ''* '')"
  let ?m2 = "fst (ensureSymbol ?m1 ''+ '')"
  have 1: "findSymbol ?m1 ''* '' = snd (ensureSymbol (methods v) ''* '')"
    and 2: "findSymbol ?m2 ''+ '' = snd (ensureSymbol ?m1 ''+ '')"
    and 3: "snd (ensureSymbol (methods v) ''* '') \<noteq> -1" "snd (ensureSymbol ?m1 ''+ '') \<noteq> -1"
    by (rule ensureSymbol_snd)+
  from 1 3 have 4: "findSymbol ?m2 ''* '' = snd (ensureSymbol (methods v) ''* '')"
    by (simp add: ensureSymbol_keeps)
  from compile_plus_times[of "globalSymbols v" "methods v" "maxCodes v - 11" "maxConstants v - 3"]
    VM_literal[OF assms(1,2)]
  obtain r where r: "compile 20 v ''1 + 2 * 3'' = Inr r"
    and f: "result r = Some \<lparr>bytecode =
                [CODE_CONSTANT, ARG 0, CODE_CONSTANT, ARG 1, CODE_CONSTANT, ARG 2,
                 CODE_CALL_1, ARG (of_int (snd (ensureSymbol (methods v) ''* ''))),
                 CODE_CALL_1, ARG (of_int (snd (ensureSymbol ?m1 ''+ ''))),
                 CODE_END],
               constants = [NUM_VAL 1, NUM_VAL 2, NUM_VAL 3]\<rparr>"
    and m: "methods (vm_after r) = ?m2" and d: "reported r = []"
    by (metis Compiled.select_convs VM.select_convs)
  from compile_enough[OF r assms(3)] f m d 1 2 3 4 show ?thesis by simp
qed

lemma compile_minus_minus_any:
  assumes "11 \<le> maxCodes v" and "3 \<le> maxConstants v" and "20 \<le> k"
  shows "\<exists>r. compile k v ''1 - 2 - 3'' = Inr r \<and> reported r = []
           \<and> result r = Some \<lparr>bytecode =
                [CODE_CONSTANT, ARG 0, CODE_CONSTANT, ARG 1,
                 CODE_CALL_1, ARG (of_int (findSymbol (methods (vm_after r)) ''- '')),
                 CODE_CONSTANT, ARG 2,
                 CODE_CALL_1, ARG (of_int (findSymbol (methods (vm_after r)) ''- '')),
                 CODE_END],
               constants = [NUM_VAL 1, NUM_VAL 2, NUM_VAL 3]\<rparr>
           \<and> findSymbol (methods (vm_after r)) ''- '' \<noteq> -1"
proof -
  let ?m1 = "fst (ensureSymbol (methods v) ''- '')"
  let ?m2 = "fst (ensureSymbol ?m1 ''- '')"
  have 1: "findSymbol ?m1 ''- '' = snd (ensureSymbol (methods v) ''- '')"
    and 2: "findSymbol ?m2 ''- '' = snd (ensureSymbol ?m1 ''- '')"
    and 3: "snd (ensureSymbol (methods v) ''- '') \<noteq> -1" "snd (ensureSymbol ?m1 ''- '') \<noteq> -1"
    by (rule ensureSymbol_snd)+
  from 1 3 have 4: "findSymbol ?m2 ''- '' = snd (ensureSymbol (methods v) ''- '')"
    by (simp add: ensureSymbol_keeps)
  from compile_minus_minus[of "globalSymbols v" "methods v" "maxCodes v - 11" "maxConstants v - 3"]
    VM_literal[OF assms(1,2)]
  obtain r where r: "compile 20 v ''1 - 2 - 3'' = Inr r"
    and f: "result r = Some \<lparr>bytecode =
                [CODE_CONSTANT, ARG 0, CODE_CONSTANT, ARG 1,
                 CODE_CALL_1, ARG (of_int (snd (ensureSymbol (methods v) ''- ''))),
                 CODE_CONSTANT, ARG 2,
                 CODE_CALL_1, ARG (of_int (snd (ensureSymbol ?m1 ''- ''))),
                 CODE_END],
               constants = [NUM_VAL 1, NUM_VAL 2, NUM_VAL 3]\<rparr>"
    and m: "methods (vm_after r) = ?m2" and d: "reported r = []"
    by (metis Compiled.select_convs VM.select_convs)
  from compile_enough[OF r assms(3)] f m d 1 2 3 4 show ?thesis by simp
qed

lemma compile_times_plus_any:
  assumes "11 \<le> maxCodes v" and "3 \<le> maxConstants v" and "20 \<le> k"
  shows "\<exists>r. compile k v ''1 * 2 + 3'' = Inr r \<and> reported r = []
           \<and> result r = Some \<lparr>bytecode =
                [CODE_CONSTANT, ARG 0, CODE_CONSTANT, ARG 1,
                 CODE_CALL_1, ARG (of_int (findSymbol (methods (vm_after r)) ''* '')),
                 CODE_CONSTANT, ARG 2,
                 CODE_CALL_1, ARG (of_int (findSymbol (methods (vm_after r)) ''+ '')),
                 CODE_END],
               constants = [NUM_VAL 1, NUM_VAL 2, NUM_VAL 3]\<rparr>
           \<and> findSymbol (methods (vm_after r)) ''* '' \<noteq> -1
           \<and> findSymbol (methods (vm_after r)) ''+ '' \<noteq> -1"
proof -
  let ?m1 = "fst (ensureSymbol (methods v) ''* '')"
  let ?m2 = "fst (ensureSymbol ?m1 ''+ '')"
  have 1: "findSymbol ?m1 ''* '' = snd (ensureSymbol (methods v) ''* '')"
    and 2: "findSymbol ?m2 ''+ '' = snd (ensureSymbol ?m1 ''+ '')"
    and 3: "snd (ensureSymbol (methods v) ''* '') \<noteq> -1" "snd (ensureSymbol ?m1 ''+ '') \<noteq> -1"
    by (rule ensureSymbol_snd)+
  from 1 3 have 4: "findSymbol ?m2 ''* '' = snd (ensureSymbol (methods v) ''* '')"
    by (simp add: ensureSymbol_keeps)
  from compile_times_plus[of "globalSymbols v" "methods v" "maxCodes v - 11" "maxConstants v - 3"]
    VM_literal[OF assms(1,2)]
  obtain r where r: "compile 20 v ''1 * 2 + 3'' = Inr r"
    and f: "result r = Some \<lparr>bytecode =
                [CODE_CONSTANT, ARG 0, CODE_CONSTANT, ARG 1,
                 CODE_CALL_1, ARG (of_int (snd (ensureSymbol (methods v) ''* ''))),
                 CODE_CONSTANT, ARG 2,
                 CODE_CALL_1, ARG (of_int (snd (ensureSymbol ?m1 ''+ ''))),
                 CODE_END],
               constants = [NUM_VAL 1, NUM_VAL 2, NUM_VAL 3]\<rparr>"
    and m: "methods (vm_after r) = ?m2" and d: "reported r = []"
    by (metis Compiled.select_convs VM.select_convs)
  from compile_enough[OF r assms(3)] f m d 1 2 3 4 show ?thesis by simp
qed


text \<open>
  C5. An infix operator compiles its right operand with \<open>parsePrecedence\<close> at the
  precedence of its rule plus one and then emits CALL_1 with the symbol of the rule's
  name; the loop of \<open>parsePrecedence\<close> returns at once before an operator whose
  precedence is below the one it was called with, so the right operand of an operator
  does not take an operator of the same or a lower precedence: binary operators
  associate to the left. \<open>+\<close> and \<open>-\<close> have the precedence TERM, \<open>*\<close> the higher
  precedence FACTOR. In every VM whose function objects hold 11 codes and 3 constants,
  \<open>1 + 2 * 3\<close> compiles to CONSTANT 0, CONSTANT 1, CONSTANT 2, CALL_1 with the symbol
  of \<open>"* "\<close>, CALL_1 with the symbol of \<open>"+ "\<close>, END, with the pool 1, 2, 3; \<open>1 - 2 - 3\<close>
  calls the first \<open>-\<close> before it loads the third constant, and so does \<open>1 * 2 + 3\<close> with
  \<open>*\<close>. The symbols are those of the methods table the compilation leaves in the VM.
\<close>

theorem C5_infix_operators:
  "(grammar (Suc n) (InfixOp compiler allowAssignment) = Inr c' \<longrightarrow>
      (\<exists>operand nm.
          rule_name (rules (tok_type (previous (parser compiler)))) = Some nm
        \<and> grammar n (ParsePrecedence compiler False
              (rule_precedence (rules (tok_type (previous (parser compiler)))) + 1)) = Inr operand
        \<and> bytecode (fn c') = bytecode (fn operand) @
              [CODE_CALL_1, ARG (of_int (findSymbol (methods (vm (parser c'))) nm))]
        \<and> findSymbol (methods (vm (parser c'))) nm \<noteq> -1))
   \<and> (rule_precedence (rules (tok_type (current (parser left)))) < precedence \<longrightarrow>
        grammar (Suc m) (InfixLoop left allowAssignment' precedence) = Inr left)
   \<and> rule_precedence (rules TOKEN_PLUS) = PREC_TERM
   \<and> rule_precedence (rules TOKEN_MINUS) = PREC_TERM
   \<and> rule_precedence (rules TOKEN_STAR) = PREC_FACTOR
   \<and> PREC_TERM < PREC_FACTOR
   \<and> rule_name (rules TOKEN_PLUS) = Some ''+ ''
   \<and> rule_name (rules TOKEN_MINUS) = Some ''- ''
   \<and> rule_name (rules TOKEN_STAR) = Some ''* ''
   \<and> (11 \<le> maxCodes v \<and> 3 \<le> maxConstants v \<and> 20 \<le> k \<longrightarrow>
        (\<exists>r. compile k v ''1 + 2 * 3'' = Inr r \<and> reported r = []
           \<and> result r = Some \<lparr>bytecode =
                [CODE_CONSTANT, ARG 0, CODE_CONSTANT, ARG 1, CODE_CONSTANT, ARG 2,
                 CODE_CALL_1, ARG (of_int (findSymbol (methods (vm_after r)) ''* '')),
                 CODE_CALL_1, ARG (of_int (findSymbol (methods (vm_after r)) ''+ '')),
                 CODE_END],
               constants = [NUM_VAL 1, NUM_VAL 2, NUM_VAL 3]\<rparr>
           \<and> findSymbol (methods (vm_after r)) ''* '' \<noteq> -1
           \<and> findSymbol (methods (vm_after r)) ''+ '' \<noteq> -1)
      \<and> (\<exists>r. compile k v ''1 - 2 - 3'' = Inr r \<and> reported r = []
           \<and> result r = Some \<lparr>bytecode =
                [CODE_CONSTANT, ARG 0, CODE_CONSTANT, ARG 1,
                 CODE_CALL_1, ARG (of_int (findSymbol (methods (vm_after r)) ''- '')),
                 CODE_CONSTANT, ARG 2,
                 CODE_CALL_1, ARG (of_int (findSymbol (methods (vm_after r)) ''- '')),
                 CODE_END],
               constants = [NUM_VAL 1, NUM_VAL 2, NUM_VAL 3]\<rparr>
           \<and> findSymbol (methods (vm_after r)) ''- '' \<noteq> -1)
      \<and> (\<exists>r. compile k v ''1 * 2 + 3'' = Inr r \<and> reported r = []
           \<and> result r = Some \<lparr>bytecode =
                [CODE_CONSTANT, ARG 0, CODE_CONSTANT, ARG 1,
                 CODE_CALL_1, ARG (of_int (findSymbol (methods (vm_after r)) ''* '')),
                 CODE_CONSTANT, ARG 2,
                 CODE_CALL_1, ARG (of_int (findSymbol (methods (vm_after r)) ''+ '')),
                 CODE_END],
               constants = [NUM_VAL 1, NUM_VAL 2, NUM_VAL 3]\<rparr>
           \<and> findSymbol (methods (vm_after r)) ''* '' \<noteq> -1
           \<and> findSymbol (methods (vm_after r)) ''+ '' \<noteq> -1))"
proof (intro conjI impI)
  assume "grammar (Suc n) (InfixOp compiler allowAssignment) = Inr c'"
  then show "\<exists>operand nm.
          rule_name (rules (tok_type (previous (parser compiler)))) = Some nm
        \<and> grammar n (ParsePrecedence compiler False
              (rule_precedence (rules (tok_type (previous (parser compiler)))) + 1)) = Inr operand
        \<and> bytecode (fn c') = bytecode (fn operand) @
              [CODE_CALL_1, ARG (of_int (findSymbol (methods (vm (parser c'))) nm))]
        \<and> findSymbol (methods (vm (parser c'))) nm \<noteq> -1"
    by (rule infixOp_operand)
next
  assume "rule_precedence (rules (tok_type (current (parser left)))) < precedence"
  then show "grammar (Suc m) (InfixLoop left allowAssignment' precedence) = Inr left"
    by (rule infixLoop_stops)
next
  show "rule_precedence (rules TOKEN_PLUS) = PREC_TERM"
    "rule_precedence (rules TOKEN_MINUS) = PREC_TERM"
    "rule_precedence (rules TOKEN_STAR) = PREC_FACTOR"
    "rule_name (rules TOKEN_PLUS) = Some ''+ ''"
    "rule_name (rules TOKEN_MINUS) = Some ''- ''"
    "rule_name (rules TOKEN_STAR) = Some ''* ''"
    by (simp_all add: INFIX_OPERATOR_def OPERATOR_def)
  show "PREC_TERM < PREC_FACTOR" by (simp add: PREC_TERM_def PREC_FACTOR_def)
next
  assume a: "11 \<le> maxCodes v \<and> 3 \<le> maxConstants v \<and> 20 \<le> k"
  then show "\<exists>r. compile k v ''1 + 2 * 3'' = Inr r \<and> reported r = []
           \<and> result r = Some \<lparr>bytecode =
                [CODE_CONSTANT, ARG 0, CODE_CONSTANT, ARG 1, CODE_CONSTANT, ARG 2,
                 CODE_CALL_1, ARG (of_int (findSymbol (methods (vm_after r)) ''* '')),
                 CODE_CALL_1, ARG (of_int (findSymbol (methods (vm_after r)) ''+ '')),
                 CODE_END],
               constants = [NUM_VAL 1, NUM_VAL 2, NUM_VAL 3]\<rparr>
           \<and> findSymbol (methods (vm_after r)) ''* '' \<noteq> -1
           \<and> findSymbol (methods (vm_after r)) ''+ '' \<noteq> -1"
    by (intro compile_plus_times_any) simp_all
  from a show "\<exists>r. compile k v ''1 - 2 - 3'' = Inr r \<and> reported r = []
           \<and> result r = Some \<lparr>bytecode =
                [CODE_CONSTANT, ARG 0, CODE_CONSTANT, ARG 1,
                 CODE_CALL_1, ARG (of_int (findSymbol (methods (vm_after r)) ''- '')),
                 CODE_CONSTANT, ARG 2,
                 CODE_CALL_1, ARG (of_int (findSymbol (methods (vm_after r)) ''- '')),
                 CODE_END],
               constants = [NUM_VAL 1, NUM_VAL 2, NUM_VAL 3]\<rparr>
           \<and> findSymbol (methods (vm_after r)) ''- '' \<noteq> -1"
    by (intro compile_minus_minus_any) simp_all
  from a show "\<exists>r. compile k v ''1 * 2 + 3'' = Inr r \<and> reported r = []
           \<and> result r = Some \<lparr>bytecode =
                [CODE_CONSTANT, ARG 0, CODE_CONSTANT, ARG 1,
                 CODE_CALL_1, ARG (of_int (findSymbol (methods (vm_after r)) ''* '')),
                 CODE_CONSTANT, ARG 2,
                 CODE_CALL_1, ARG (of_int (findSymbol (methods (vm_after r)) ''+ '')),
                 CODE_END],
               constants = [NUM_VAL 1, NUM_VAL 2, NUM_VAL 3]\<rparr>
           \<and> findSymbol (methods (vm_after r)) ''* '' \<noteq> -1
           \<and> findSymbol (methods (vm_after r)) ''+ '' \<noteq> -1"
    by (intro compile_times_plus_any) simp_all
qed

theorem C5_infix_operators_witness:
  "bytecode (fn (projr (grammar 10 (InfixOp (afterTokens 3 ''1 + 2 * 3'') False)))) =
     bytecode (fn (projr (grammar 9 (ParsePrecedence (afterTokens 3 ''1 + 2 * 3'') False (PREC_TERM + 1))))) @
       [CODE_CALL_1, ARG (of_int (findSymbol
          (methods (vm (parser (projr (grammar 10 (InfixOp (afterTokens 3 ''1 + 2 * 3'') False)))))) ''+ ''))]
   \<and> bytecode (fn (projr (grammar 9 (ParsePrecedence (afterTokens 3 ''1 + 2 * 3'') False (PREC_TERM + 1))))) =
       [CODE_CONSTANT, ARG 0, CODE_CONSTANT, ARG 1, CODE_CALL_1, ARG 2]
   \<and> grammar 1 (InfixLoop (afterTokens 4 ''1 - 2 - 3'') False (PREC_TERM + 1)) =
       Inr (afterTokens 4 ''1 - 2 - 3'')
   \<and> (\<exists>r. compile 20 exampleVM ''1 - 2 - 3'' = Inr r \<and> reported r = []
           \<and> result r = Some \<lparr>bytecode =
                [CODE_CONSTANT, ARG 0, CODE_CONSTANT, ARG 1,
                 CODE_CALL_1, ARG (of_int (findSymbol (methods (vm_after r)) ''- '')),
                 CODE_CONSTANT, ARG 2,
                 CODE_CALL_1, ARG (of_int (findSymbol (methods (vm_after r)) ''- '')),
                 CODE_END],
               constants = [NUM_VAL 1, NUM_VAL 2, NUM_VAL 3]\<rparr>)"
proof -
  let ?c = "afterTokens 3 ''1 + 2 * 3''"
  let ?l = "afterTokens 4 ''1 - 2 - 3''"
  have 1: "grammar (Suc 9) (InfixOp ?c False) = Inr (projr (grammar 10 (InfixOp ?c False)))"
    by code_simp
  have 2: "rule_precedence (rules (tok_type (current (parser ?l)))) < PREC_TERM + 1"
    by code_simp
  have 3: "11 \<le> maxCodes exampleVM \<and> 3 \<le> maxConstants exampleVM \<and> (20::nat) \<le> 20"
    by (simp add: exampleVM_def)
  have 4: "rules (tok_type (previous (parser ?c))) = rules TOKEN_PLUS" by code_simp
  have 5: "bytecode (fn (projr (grammar 9 (ParsePrecedence ?c False (PREC_TERM + 1))))) =
       [CODE_CONSTANT, ARG 0, CODE_CONSTANT, ARG 1, CODE_CALL_1, ARG 2]" by code_simp
  from C5_infix_operators[of 9 ?c False "projr (grammar 10 (InfixOp ?c False))" ?l "PREC_TERM + 1"
      0 False exampleVM 20] 1 2 3 4 5
  show ?thesis by (auto simp del: grammar.simps simp: numeral_eq_Suc)
qed

subsection \<open>C8: the same source twice\<close>



text \<open>
  The state of the VM is an input: a second run in the VM the first run left finds the
  variable of the first run in the table of the global names.
\<close>

lemma compile_in_the_vm_left:
  "compile 20 (vm_after (projr (compile 20 exampleVM ''var a = 1''))) ''var a = 1'' =
     Inr \<lparr>result = None,
          vm_after = \<lparr>globalSymbols = [''a''], methods = [''+ '', ''- '', ''* '', ''/ ''],
                       maxCodes = 1024, maxConstants = 256\<rparr>,
          reported = [(1, ''a'', ''Variable is already defined.'')]\<rparr>"
  by code_simp

subsection \<open>C1: failure and diagnostics\<close>

text \<open>
  \<open>latched p\<close>: the error flag of the parser is set exactly when a diagnostic was
  reported.
\<close>

definition latched :: "Parser \<Rightarrow> bool" where
  "latched p \<longleftrightarrow> (hasError p \<longleftrightarrow> diagnostics p \<noteq> [])"

text \<open>\<open>always P r\<close>: the result \<open>r\<close>, when there is one, has the property \<open>P\<close>.\<close>

definition always :: "('a \<Rightarrow> bool) \<Rightarrow> error + 'a \<Rightarrow> bool" where
  "always P r = (case r of Inl e \<Rightarrow> True | Inr x \<Rightarrow> P x)"

lemma always_Inr [simp]: "always P (Inr x) = P x"
  by (simp add: always_def)

lemma always_Inl [simp]: "always P (Inl e)"
  by (simp add: always_def)

lemma alwaysD: "always P r \<Longrightarrow> r = Inr x \<Longrightarrow> P x"
  by (simp add: always_def)




lemma latched_update [simp]:
  "latched (p\<lparr>vm := v\<rparr>) = latched p"
  "latched (p\<lparr>hasError := True, diagnostics := ds @ [d]\<rparr>)"
  by (simp_all add: latched_def)

lemma latched_parser [simp]:
  "latched (parser (error c m))"
  "latched (parser (setMethods c t)) = latched (parser c)"
  "latched (parser (setGlobalSymbols c t)) = latched (parser c)"
  "parser (setConstant c i v) = parser c"
  "parser (patch c i k) = parser c"
  "parser (initCompiler p ps b) = p"
  "latched (parser (snd (ensureMethod c nm))) = latched (parser c)"
  by (simp_all add: error_def setMethods_def setGlobalSymbols_def setConstant_def patch_def
      initCompiler_def ensureMethod_def split_def Let_def)










































end
